theory Spec2Isabelle
  imports Main "HOL-Library.Sublist"
begin

section \<open>The segment-recording controller of \<open>src/components/AudioRecorder.js\<close>\<close>

text \<open>
  The component is a set of \<open>async\<close> functions over React state (\<open>useState\<close>), refs
  (\<open>useRef\<close>) and the device (expo-av, expo-file-system, timers, alerts).  JavaScript runs
  them on one thread: a function runs without interruption up to its next \<open>await\<close>, and
  other callbacks run while it waits.  The embedding follows that: every \<open>async\<close> function
  is cut at its \<open>await\<close>s into synchronous pieces; a suspended call is a \<^emph>\<open>task\<close> (the
  closure it was created in and the \<open>await\<close> it stands at); one \<^emph>\<open>event\<close> (a button press, a
  timer firing, a promise settling) runs one synchronous piece.

  A function of the component sees the \<open>useState\<close> values of the render it was created in
  (its closure), while \<open>ref.current\<close> is always read live.
\<close>

subsection \<open>Data\<close>

text \<open>An \<open>Audio.Recording\<close> object: its identity and what \<open>getURI()\<close> returns.\<close>

record recording_obj =
  rec_id :: nat
  rec_uri :: "string option"

text \<open>The object built at lines 172-177.\<close>

record segment =
  seg_id :: string
  seg_uri :: string
  fileName :: string
  timestamp :: nat

text \<open>
  The five \<open>Alert.alert\<close> calls of the component: line 37 (permission needed), line 65
  (recording cannot be started), line 134 (a new recording segment cannot be started),
  line 106 (recording complete, with the number of files), line 249 (playback error).
\<close>

datatype alert =
    PermissionDenied
  | DeviceStartFailure
  | SegmentStartFailure
  | StopSummary nat
  | PlaybackFailure

datatype permission_status = Granted | Denied | Undetermined

text \<open>Calls to the device, logged in the order they are made.\<close>

datatype call =
    RequestPermissions
  | SetAudioMode bool
  | CreateRecording
  | StopAndUnload nat
  | MoveFile string string
  | CreateSound string
  | UnloadSound nat

text \<open>The \<open>useState\<close> values a function reads through its closure.\<close>

record closure =
  c_recording :: "recording_obj option"
  c_isRecording :: bool
  c_recordingSegments :: "segment list"
  c_playingSegmentId :: "string option"
  c_soundObject :: "nat option"

text \<open>
  The callbacks given to \<open>setInterval\<close>: the one-second tick (lines 52-55, state updates
  only) and the five-second split (lines 58-61), which calls the \<open>handleSegmentSplit\<close> of
  the closure \<open>startRecording\<close> ran in.
\<close>

datatype timer = SecondTimer | SplitTimer closure

text \<open>Who awaits \<open>startNewSegment()\<close> (lines 49, 209) and \<open>saveCurrentSegment()\<close>
  (line 90, with the local \<open>finalSegments\<close>; line 197).\<close>

datatype new_caller = StartRecordingCaller | SplitCaller

datatype save_caller = StopRecordingCaller "segment list" | SplitSaveCaller

text \<open>The \<open>await\<close>s of the component, with the local variables live across each.\<close>

datatype pc =
    StartRecording_permission
  | StartRecording_audioMode
  | StartNewSegment_audioMode new_caller
  | StartNewSegment_create new_caller
  | Save_stop save_caller recording_obj
  | Save_audioMode save_caller recording_obj
  | Save_move save_caller nat string string
  | StopRecording_audioMode "segment list"
  | Split_delay
  | PlaySegment_unload segment
  | PlaySegment_create segment

text \<open>How an awaited promise settles.\<close>

datatype 'a awaited = Fulfilled 'a | Rejected

datatype "value" =
    Undefined
  | PermissionResponse permission_status
  | NewRecording "string option"
  | NewSound

record world =
  \<comment> \<open>\<open>useState\<close>, lines 7-13\<close>
  recording :: "recording_obj option"
  isRecording :: bool
  recordingSegments :: "segment list"
  recordingTime :: nat
  segmentProgress :: nat
  playingSegmentId :: "string option"
  soundObject :: "nat option"
  \<comment> \<open>\<open>useRef\<close>, lines 14-18\<close>
  intervalRef :: "nat option"
  timerRef :: "nat option"
  segmentCountRef :: nat
  isRecordingRef :: bool
  recordingRef :: "recording_obj option"
  \<comment> \<open>the device and the runtime\<close>
  alerts :: "alert list"
  calls :: "call list"
  open_handles :: "nat set"
  loaded_sounds :: "nat set"
  status_callbacks :: "nat set"
  timers :: "nat \<rightharpoonup> timer"
  tasks :: "nat \<rightharpoonup> closure \<times> pc"
  next_id :: nat
  now :: nat
  documentDirectory :: string

type_synonym outcome = "world \<times> pc option"

datatype event =
    PressRecord
  | PressSegment nat
  | Fire nat
  | Resume nat "value awaited"
  | DidJustFinish nat
  | ClockAdvance nat

subsection \<open>Template literals\<close>

text \<open>A non-negative integer as \<open>${n}\<close> prints it: decimal, no leading zero.\<close>

function dec :: "nat \<Rightarrow> string" where
  "dec n = (if n < 10 then [''0123456789'' ! n] else dec (n div 10) @ [''0123456789'' ! (n mod 10)])"
  by pat_completeness auto
termination
  by (relation "measure id") auto

declare dec.simps [simp del]

text \<open>Line 166 and line 173.\<close>

definition recording_name :: "nat \<Rightarrow> nat \<Rightarrow> string" where
  "recording_name n t = ''recording_'' @ dec n @ ''_'' @ dec t @ ''.m4a''"

definition segment_name :: "nat \<Rightarrow> nat \<Rightarrow> string" where
  "segment_name n t = ''segment_'' @ dec n @ ''_'' @ dec t"

subsection \<open>The runtime\<close>

definition Alert_alert :: "alert \<Rightarrow> world \<Rightarrow> world" where
  "Alert_alert a w = w\<lparr>alerts := alerts w @ [a]\<rparr>"

definition device_call :: "call \<Rightarrow> world \<Rightarrow> world" where
  "device_call c w = w\<lparr>calls := calls w @ [c]\<rparr>"

text \<open>\<open>setInterval\<close> returns a new identifier (never 0, so it is truthy).\<close>

definition setInterval :: "timer \<Rightarrow> world \<Rightarrow> world \<times> nat" where
  "setInterval t w = (w\<lparr>timers := (timers w)(next_id w \<mapsto> t), next_id := next_id w + 1\<rparr>, next_id w)"

definition clearInterval :: "nat \<Rightarrow> world \<Rightarrow> world" where
  "clearInterval i w = w\<lparr>timers := (timers w)(i := None)\<rparr>"

text \<open>\<open>if (ref.current) clearInterval(ref.current)\<close>.\<close>

definition clear_if_set :: "nat option \<Rightarrow> world \<Rightarrow> world" where
  "clear_if_set r w = (case r of None \<Rightarrow> w | Some i \<Rightarrow> clearInterval i w)"

text \<open>A call of an \<open>async\<close> function that nobody awaits, or that an event handler makes:
  what is left of it after its first synchronous piece waits as a new task.\<close>

definition spawn :: "closure \<Rightarrow> outcome \<Rightarrow> world" where
  "spawn cl r = (case r of
      (w, None) \<Rightarrow> w
    | (w, Some p) \<Rightarrow> w\<lparr>tasks := (tasks w)(next_id w \<mapsto> (cl, p)), next_id := next_id w + 1\<rparr>)"

text \<open>The closure of the current render.\<close>

definition render :: "world \<Rightarrow> closure" where
  "render w = \<lparr>c_recording = recording w, c_isRecording = isRecording w,
     c_recordingSegments = recordingSegments w, c_playingSegmentId = playingSegmentId w,
     c_soundObject = soundObject w\<rparr>"

subsection \<open>\<open>stopRecording\<close> (lines 72-108) and \<open>saveCurrentSegment\<close> (lines 140-186)\<close>

text \<open>After \<open>await Audio.setAudioModeAsync(...)\<close> of line 102.  The call stands outside the
  \<open>try\<close>: when it rejects, the rest of the function does not run.\<close>

definition stopRecording_2 :: "segment list \<Rightarrow> unit awaited \<Rightarrow> world \<Rightarrow> outcome" where
  "stopRecording_2 finalSegments r w = (case r of
      Rejected \<Rightarrow> (w, None)
    | Fulfilled _ \<Rightarrow>
        ((Alert_alert (StopSummary (length finalSegments)) w)\<lparr>segmentCountRef := 0\<rparr>, None))"

text \<open>After \<open>await saveCurrentSegment()\<close> of line 90: lines 91-95, then the call of line 102.
  \<open>saveCurrentSegment\<close> catches everything, so the \<open>catch\<close> of line 96 is never entered.\<close>

definition stopRecording_1 :: "segment list \<Rightarrow> segment option \<Rightarrow> world \<Rightarrow> outcome" where
  "stopRecording_1 finalSegments savedSegment w =
     (let finalSegments' = (case savedSegment of
                              None \<Rightarrow> finalSegments
                            | Some s \<Rightarrow> finalSegments @ [s]);
          w1 = w\<lparr>recordingSegments := finalSegments', recording := None\<rparr>
      in (device_call (SetAudioMode False) w1, Some (StopRecording_audioMode finalSegments')))"

text \<open>After \<open>await saveCurrentSegment()\<close> of line 197: lines 198-205, up to the delay.\<close>

definition handleSegmentSplit_1 :: "segment option \<Rightarrow> world \<Rightarrow> outcome" where
  "handleSegmentSplit_1 savedSegment w =
     (let w1 = (case savedSegment of
                  None \<Rightarrow> w
                | Some s \<Rightarrow> w\<lparr>recordingSegments := recordingSegments w @ [s]\<rparr>)
      in (w1\<lparr>segmentProgress := 0\<rparr>, Some Split_delay))"

text \<open>\<open>saveCurrentSegment\<close> returns to the function that awaits it.\<close>

definition after_save :: "save_caller \<Rightarrow> segment option \<Rightarrow> world \<Rightarrow> outcome" where
  "after_save k savedSegment w = (case k of
      StopRecordingCaller finalSegments \<Rightarrow> stopRecording_1 finalSegments savedSegment w
    | SplitSaveCaller \<Rightarrow> handleSegmentSplit_1 savedSegment w)"

text \<open>Lines 141-151: the guard, \<open>recordingRef.current || recording\<close>, both references cleared,
  then \<open>stopAndUnloadAsync\<close> is called.\<close>

definition saveCurrentSegment :: "save_caller \<Rightarrow> closure \<Rightarrow> world \<Rightarrow> outcome" where
  "saveCurrentSegment k cl w =
     (case (case recordingRef w of Some r \<Rightarrow> Some r | None \<Rightarrow> c_recording cl) of
        None \<Rightarrow> after_save k None w
      | Some currentRecording \<Rightarrow>
          (device_call (StopAndUnload (rec_id currentRecording))
             (w\<lparr>recording := None, recordingRef := None\<rparr>),
           Some (Save_stop k currentRecording)))"

text \<open>After line 151.  Once \<open>stopAndUnloadAsync\<close> has settled, either way, the recording is
  no longer open on the device.\<close>

definition saveCurrentSegment_1 ::
  "save_caller \<Rightarrow> recording_obj \<Rightarrow> unit awaited \<Rightarrow> world \<Rightarrow> outcome" where
  "saveCurrentSegment_1 k currentRecording r w =
     (let w1 = w\<lparr>open_handles := open_handles w - {rec_id currentRecording}\<rparr>
      in case r of
           Rejected \<Rightarrow> after_save k None w1
         | Fulfilled _ \<Rightarrow>
             (device_call (SetAudioMode False) w1, Some (Save_audioMode k currentRecording)))"

text \<open>After line 154: lines 158-169.  \<open>!uri\<close> holds of \<open>null\<close> and of the empty string.
  The timestamp is \<open>new Date().getTime()\<close>; the file name takes the counter as it is now.\<close>

definition saveCurrentSegment_2 ::
  "save_caller \<Rightarrow> recording_obj \<Rightarrow> unit awaited \<Rightarrow> world \<Rightarrow> outcome" where
  "saveCurrentSegment_2 k currentRecording r w = (case r of
      Rejected \<Rightarrow> after_save k None w
    | Fulfilled _ \<Rightarrow>
        (case rec_uri currentRecording of
           None \<Rightarrow> after_save k None w
         | Some uri \<Rightarrow>
             if uri = [] then after_save k None w
             else
               (let ts = now w;
                    name = recording_name (segmentCountRef w) ts;
                    newUri = documentDirectory w @ name
                in (device_call (MoveFile uri newUri) w, Some (Save_move k ts name newUri)))))"

text \<open>After line 169: lines 170-180.  The identifier takes the counter as it is after the
  move.\<close>

definition saveCurrentSegment_3 ::
  "save_caller \<Rightarrow> nat \<Rightarrow> string \<Rightarrow> string \<Rightarrow> unit awaited \<Rightarrow> world \<Rightarrow> outcome" where
  "saveCurrentSegment_3 k ts name newUri r w = (case r of
      Rejected \<Rightarrow> after_save k None w
    | Fulfilled _ \<Rightarrow>
        (let newSegment = \<lparr>seg_id = segment_name (segmentCountRef w) ts,
                           seg_uri = newUri, fileName = name, timestamp = ts\<rparr>
         in after_save k (Some newSegment) (w\<lparr>segmentCountRef := segmentCountRef w + 1\<rparr>)))"

text \<open>Lines 73-88, then either \<open>saveCurrentSegment()\<close> or the call of line 102.\<close>

definition stopRecording_0 :: "closure \<Rightarrow> world \<Rightarrow> outcome" where
  "stopRecording_0 cl w =
     (let w1 = w\<lparr>isRecording := False, isRecordingRef := False\<rparr>;
          w2 = clear_if_set (intervalRef w1) w1;
          w3 = clear_if_set (timerRef w2) w2;
          w4 = w3\<lparr>intervalRef := None, timerRef := None, recordingTime := 0,
                  segmentProgress := 0\<rparr>;
          finalSegments = c_recordingSegments cl
      in if c_recording cl \<noteq> None
         then saveCurrentSegment (StopRecordingCaller finalSegments) cl w4
         else (device_call (SetAudioMode False) w4, Some (StopRecording_audioMode finalSegments)))"

definition stopRecording :: "closure \<Rightarrow> world \<Rightarrow> world" where
  "stopRecording cl w = spawn cl (stopRecording_0 cl w)"

subsection \<open>\<open>startNewSegment\<close> (lines 111-137) and \<open>startRecording\<close> (lines 33-69)\<close>

text \<open>Lines 52-61: the two timers.\<close>

definition startRecording_3 :: "closure \<Rightarrow> world \<Rightarrow> outcome" where
  "startRecording_3 cl w =
     (let (w1, t1) = setInterval SecondTimer w;
          w2 = w1\<lparr>timerRef := Some t1\<rparr>;
          (w3, t2) = setInterval (SplitTimer cl) w2
      in (w3\<lparr>intervalRef := Some t2\<rparr>, None))"

text \<open>\<open>startNewSegment\<close> returns to the function that awaits it: line 49 goes on to the
  timers, line 209 is the last statement of \<open>handleSegmentSplit\<close>.\<close>

definition after_startNewSegment :: "new_caller \<Rightarrow> closure \<Rightarrow> world \<Rightarrow> outcome" where
  "after_startNewSegment k cl w = (case k of
      StartRecordingCaller \<Rightarrow> startRecording_3 cl w
    | SplitCaller \<Rightarrow> (w, None))"

text \<open>Lines 132-136: the \<open>catch\<close> of \<open>startNewSegment\<close>.  \<open>stopRecording()\<close> is not awaited;
  \<open>startNewSegment\<close> then returns normally.\<close>

definition startNewSegment_catch :: "new_caller \<Rightarrow> closure \<Rightarrow> world \<Rightarrow> outcome" where
  "startNewSegment_catch k cl w =
     after_startNewSegment k cl (stopRecording cl (Alert_alert SegmentStartFailure w))"

text \<open>Lines 113-120.\<close>

definition startNewSegment :: "new_caller \<Rightarrow> closure \<Rightarrow> world \<Rightarrow> outcome" where
  "startNewSegment k cl w =
     (if c_recording cl \<noteq> None \<or> recordingRef w \<noteq> None then after_startNewSegment k cl w
      else (device_call (SetAudioMode True) w, Some (StartNewSegment_audioMode k)))"

text \<open>After line 120: line 126.\<close>

definition startNewSegment_1 :: "new_caller \<Rightarrow> closure \<Rightarrow> unit awaited \<Rightarrow> world \<Rightarrow> outcome" where
  "startNewSegment_1 k cl r w = (case r of
      Rejected \<Rightarrow> startNewSegment_catch k cl w
    | Fulfilled _ \<Rightarrow> (device_call CreateRecording w, Some (StartNewSegment_create k)))"

text \<open>After line 126: lines 129-131.  The device has opened a new recording.\<close>

definition startNewSegment_2 ::
  "new_caller \<Rightarrow> closure \<Rightarrow> string option awaited \<Rightarrow> world \<Rightarrow> outcome" where
  "startNewSegment_2 k cl r w = (case r of
      Rejected \<Rightarrow> startNewSegment_catch k cl w
    | Fulfilled uri \<Rightarrow>
        (let newRecording = \<lparr>rec_id = next_id w, rec_uri = uri\<rparr>;
             w1 = w\<lparr>next_id := next_id w + 1,
                    open_handles := insert (rec_id newRecording) (open_handles w)\<rparr>
         in after_startNewSegment k cl
              (w1\<lparr>recording := Some newRecording, recordingRef := Some newRecording\<rparr>)))"

text \<open>Lines 63-68: the \<open>catch\<close> of \<open>startRecording\<close>.\<close>

definition startRecording_catch :: "world \<Rightarrow> outcome" where
  "startRecording_catch w =
     ((Alert_alert DeviceStartFailure w)\<lparr>isRecording := False, isRecordingRef := False\<rparr>, None)"

text \<open>Line 35.\<close>

definition startRecording_0 :: "closure \<Rightarrow> world \<Rightarrow> outcome" where
  "startRecording_0 cl w = (device_call RequestPermissions w, Some StartRecording_permission)"

text \<open>After line 35: lines 36-42.\<close>

definition startRecording_1 :: "closure \<Rightarrow> permission_status awaited \<Rightarrow> world \<Rightarrow> outcome" where
  "startRecording_1 cl r w = (case r of
      Rejected \<Rightarrow> startRecording_catch w
    | Fulfilled status \<Rightarrow>
        if status \<noteq> Granted then (Alert_alert PermissionDenied w, None)
        else (device_call (SetAudioMode True) w, Some StartRecording_audioMode))"

text \<open>After line 42: lines 47-49.\<close>

definition startRecording_2 :: "closure \<Rightarrow> unit awaited \<Rightarrow> world \<Rightarrow> outcome" where
  "startRecording_2 cl r w = (case r of
      Rejected \<Rightarrow> startRecording_catch w
    | Fulfilled _ \<Rightarrow>
        startNewSegment StartRecordingCaller cl (w\<lparr>isRecording := True, isRecordingRef := True\<rparr>))"

definition startRecording :: "closure \<Rightarrow> world \<Rightarrow> world" where
  "startRecording cl w = spawn cl (startRecording_0 cl w)"

subsection \<open>\<open>handleSegmentSplit\<close> (lines 189-211)\<close>

text \<open>Lines 192-197.\<close>

definition handleSegmentSplit_0 :: "closure \<Rightarrow> world \<Rightarrow> outcome" where
  "handleSegmentSplit_0 cl w =
     (if \<not> isRecordingRef w \<or> (c_recording cl = None \<and> recordingRef w = None) then (w, None)
      else saveCurrentSegment SplitSaveCaller cl w)"

text \<open>After the delay of line 205: lines 208-210.\<close>

definition handleSegmentSplit_2 :: "closure \<Rightarrow> world \<Rightarrow> outcome" where
  "handleSegmentSplit_2 cl w =
     (if isRecordingRef w then startNewSegment SplitCaller cl w else (w, None))"

definition handleSegmentSplit :: "closure \<Rightarrow> world \<Rightarrow> world" where
  "handleSegmentSplit cl w = spawn cl (handleSegmentSplit_0 cl w)"

text \<open>Lines 53-54: the one-second callback (functional updates, on the latest state).\<close>

definition second_tick :: "world \<Rightarrow> world" where
  "second_tick w = w\<lparr>recordingTime := recordingTime w + 1,
                      segmentProgress := (segmentProgress w + 1) mod 5\<rparr>"

text \<open>Lines 214-220.\<close>

definition handleRecordButtonPress :: "closure \<Rightarrow> world \<Rightarrow> world" where
  "handleRecordButtonPress cl w =
     (if c_isRecording cl then stopRecording cl w else startRecording cl w)"

subsection \<open>\<open>playSegment\<close> (lines 222-251)\<close>

definition playSegment_catch :: "world \<Rightarrow> outcome" where
  "playSegment_catch w = (Alert_alert PlaybackFailure w, None)"

text \<open>Lines 224-225, or line 233 when nothing is loaded.\<close>

definition playSegment_0 :: "closure \<Rightarrow> segment \<Rightarrow> world \<Rightarrow> outcome" where
  "playSegment_0 cl seg w = (case c_soundObject cl of
      Some s \<Rightarrow> (device_call (UnloadSound s) w, Some (PlaySegment_unload seg))
    | None \<Rightarrow> (device_call (CreateSound (seg_uri seg)) w, Some (PlaySegment_create seg)))"

text \<open>After line 225: lines 226-233.  The sound of the closure has been unloaded.\<close>

definition playSegment_1 :: "closure \<Rightarrow> segment \<Rightarrow> unit awaited \<Rightarrow> world \<Rightarrow> outcome" where
  "playSegment_1 cl seg r w = (case r of
      Rejected \<Rightarrow> playSegment_catch w
    | Fulfilled _ \<Rightarrow>
        (let w1 = w\<lparr>loaded_sounds := loaded_sounds w - set_option (c_soundObject cl),
                     soundObject := None\<rparr>
         in if c_playingSegmentId cl = Some (seg_id seg)
            then (w1\<lparr>playingSegmentId := None\<rparr>, None)
            else (device_call (CreateSound (seg_uri seg)) w1, Some (PlaySegment_create seg))))"

text \<open>After line 233: lines 237-246.  The device has loaded a new sound, which plays.\<close>

definition playSegment_2 :: "closure \<Rightarrow> segment \<Rightarrow> unit awaited \<Rightarrow> world \<Rightarrow> outcome" where
  "playSegment_2 cl seg r w = (case r of
      Rejected \<Rightarrow> playSegment_catch w
    | Fulfilled _ \<Rightarrow>
        (let sound = next_id w;
             w1 = w\<lparr>next_id := next_id w + 1, loaded_sounds := insert sound (loaded_sounds w)\<rparr>
         in (w1\<lparr>soundObject := Some sound, playingSegmentId := Some (seg_id seg),
                 status_callbacks := insert sound (status_callbacks w1)\<rparr>, None)))"

definition playSegment :: "closure \<Rightarrow> segment \<Rightarrow> world \<Rightarrow> world" where
  "playSegment cl seg w = spawn cl (playSegment_0 cl seg w)"

text \<open>Lines 240-246: the status callback of a sound, on \<open>didJustFinish\<close>.  Its
  \<open>unloadAsync()\<close> is not awaited.\<close>

definition on_didJustFinish :: "nat \<Rightarrow> world \<Rightarrow> world" where
  "on_didJustFinish sound w =
     (device_call (UnloadSound sound) (w\<lparr>playingSegmentId := None, soundObject := None\<rparr>))
       \<lparr>loaded_sounds := loaded_sounds w - {sound}\<rparr>"

subsection \<open>The effect of lines 20-30\<close>

text \<open>
  The cleanup of \<open>useEffect(..., [soundObject])\<close> runs when a render finds \<open>soundObject\<close>
  changed (and at unmount), with the \<open>soundObject\<close> of the render that set the effect up.
  Its calls are not awaited.  It does not clear the refs.
\<close>

definition effect_cleanup :: "nat option \<Rightarrow> world \<Rightarrow> world" where
  "effect_cleanup old_sound w =
     (let w1 = clear_if_set (intervalRef w) w;
          w2 = clear_if_set (timerRef w1) w1;
          w3 = (case old_sound of
                  None \<Rightarrow> w2
                | Some s \<Rightarrow> (device_call (UnloadSound s) w2)
                             \<lparr>loaded_sounds := loaded_sounds w2 - {s}\<rparr>)
      in case recordingRef w3 of
           None \<Rightarrow> w3
         | Some r \<Rightarrow> (device_call (StopAndUnload (rec_id r)) w3)
                      \<lparr>open_handles := open_handles w3 - {rec_id r}\<rparr>)"

definition commit_render :: "world \<Rightarrow> world \<Rightarrow> world" where
  "commit_render before w =
     (if soundObject w = soundObject before then w else effect_cleanup (soundObject before) w)"

subsection \<open>Events\<close>

text \<open>A task goes on when the promise it awaits settles.  A value of the wrong kind for the
  \<open>await\<close> the task stands at is not a settlement of its promise: \<open>None\<close>.\<close>

fun resume :: "closure \<Rightarrow> pc \<Rightarrow> value awaited \<Rightarrow> world \<Rightarrow> outcome option" where
  "resume cl StartRecording_permission (Fulfilled (PermissionResponse s)) w =
     Some (startRecording_1 cl (Fulfilled s) w)"
| "resume cl StartRecording_permission Rejected w = Some (startRecording_1 cl Rejected w)"
| "resume cl StartRecording_audioMode (Fulfilled Undefined) w =
     Some (startRecording_2 cl (Fulfilled ()) w)"
| "resume cl StartRecording_audioMode Rejected w = Some (startRecording_2 cl Rejected w)"
| "resume cl (StartNewSegment_audioMode k) (Fulfilled Undefined) w =
     Some (startNewSegment_1 k cl (Fulfilled ()) w)"
| "resume cl (StartNewSegment_audioMode k) Rejected w = Some (startNewSegment_1 k cl Rejected w)"
| "resume cl (StartNewSegment_create k) (Fulfilled (NewRecording uri)) w =
     Some (startNewSegment_2 k cl (Fulfilled uri) w)"
| "resume cl (StartNewSegment_create k) Rejected w = Some (startNewSegment_2 k cl Rejected w)"
| "resume cl (Save_stop k cur) (Fulfilled Undefined) w =
     Some (saveCurrentSegment_1 k cur (Fulfilled ()) w)"
| "resume cl (Save_stop k cur) Rejected w = Some (saveCurrentSegment_1 k cur Rejected w)"
| "resume cl (Save_audioMode k cur) (Fulfilled Undefined) w =
     Some (saveCurrentSegment_2 k cur (Fulfilled ()) w)"
| "resume cl (Save_audioMode k cur) Rejected w = Some (saveCurrentSegment_2 k cur Rejected w)"
| "resume cl (Save_move k t f u) (Fulfilled Undefined) w =
     Some (saveCurrentSegment_3 k t f u (Fulfilled ()) w)"
| "resume cl (Save_move k t f u) Rejected w = Some (saveCurrentSegment_3 k t f u Rejected w)"
| "resume cl (StopRecording_audioMode fs) (Fulfilled Undefined) w =
     Some (stopRecording_2 fs (Fulfilled ()) w)"
| "resume cl (StopRecording_audioMode fs) Rejected w = Some (stopRecording_2 fs Rejected w)"
| "resume cl Split_delay (Fulfilled Undefined) w = Some (handleSegmentSplit_2 cl w)"
| "resume cl (PlaySegment_unload seg) (Fulfilled Undefined) w =
     Some (playSegment_1 cl seg (Fulfilled ()) w)"
| "resume cl (PlaySegment_unload seg) Rejected w = Some (playSegment_1 cl seg Rejected w)"
| "resume cl (PlaySegment_create seg) (Fulfilled NewSound) w =
     Some (playSegment_2 cl seg (Fulfilled ()) w)"
| "resume cl (PlaySegment_create seg) Rejected w = Some (playSegment_2 cl seg Rejected w)"
| "resume cl p r w = None"

text \<open>One event, before the render it causes.  The handlers of the buttons are those of the
  current render.  A segment that is not in the list has no button; a timer that is not
  active does not fire; a sound reports its end while it is loaded and has a callback.\<close>

definition handle_event :: "world \<Rightarrow> event \<Rightarrow> world" where
  "handle_event w e = (case e of
      PressRecord \<Rightarrow> handleRecordButtonPress (render w) w
    | PressSegment i \<Rightarrow>
        if i < length (recordingSegments w)
        then playSegment (render w) (recordingSegments w ! i) w else w
    | Fire i \<Rightarrow> (case timers w i of
          None \<Rightarrow> w
        | Some SecondTimer \<Rightarrow> second_tick w
        | Some (SplitTimer cl) \<Rightarrow> handleSegmentSplit cl w)
    | Resume i r \<Rightarrow> (case tasks w i of
          None \<Rightarrow> w
        | Some (cl, p) \<Rightarrow>
            (case resume cl p r (w\<lparr>tasks := (tasks w)(i := None)\<rparr>) of
               None \<Rightarrow> w
             | Some (w', None) \<Rightarrow> w'
             | Some (w', Some p') \<Rightarrow> w'\<lparr>tasks := (tasks w')(i \<mapsto> (cl, p'))\<rparr>))
    | DidJustFinish s \<Rightarrow>
        if s \<in> loaded_sounds w \<and> s \<in> status_callbacks w then on_didJustFinish s w else w
    | ClockAdvance d \<Rightarrow> w\<lparr>now := now w + d\<rparr>)"

definition step :: "world \<Rightarrow> event \<Rightarrow> world" where
  "step w e = commit_render w (handle_event w e)"

definition exec :: "event list \<Rightarrow> world \<Rightarrow> world" where
  "exec es w = foldl step w es"

text \<open>The component as mounted: lines 7-18.\<close>

definition init_world :: "string \<Rightarrow> world" where
  "init_world dir = \<lparr>recording = None, isRecording = False, recordingSegments = [],
     recordingTime = 0, segmentProgress = 0, playingSegmentId = None, soundObject = None,
     intervalRef = None, timerRef = None, segmentCountRef = 0, isRecordingRef = False,
     recordingRef = None, alerts = [], calls = [], open_handles = {}, loaded_sounds = {},
     status_callbacks = {}, timers = Map.empty, tasks = Map.empty, next_id = 1, now = 0,
     documentDirectory = dir\<rparr>"

subsection \<open>Runs of the component\<close>

text \<open>
  A session started from the button, every promise fulfilled: permission granted, the audio
  mode set, and the first recording opened (with the URI its \<open>getURI()\<close> will report).
\<close>

definition start_session :: "string \<Rightarrow> world \<Rightarrow> world" where
  "start_session uri w =
     exec [PressRecord, Resume (next_id w) (Fulfilled (PermissionResponse Granted)),
           Resume (next_id w) (Fulfilled Undefined), Resume (next_id w) (Fulfilled Undefined),
           Resume (next_id w) (Fulfilled (NewRecording (Some uri)))] w"

text \<open>One second of wall-clock time, at the end of which the one-second timer fires.\<close>

definition second_passes :: "world \<Rightarrow> world" where
  "second_passes w = (case timerRef w of
      None \<Rightarrow> exec [ClockAdvance 1000] w
    | Some i \<Rightarrow> exec [ClockAdvance 1000, Fire i] w)"

text \<open>
  The five-second timer fires and the split runs to its end with every promise fulfilled:
  stop, audio mode, move, the delay, audio mode, and the next recording opened.
\<close>

definition rotation :: "string \<Rightarrow> world \<Rightarrow> world" where
  "rotation uri w = (case intervalRef w of
      None \<Rightarrow> w
    | Some i \<Rightarrow>
        exec [Fire i, Resume (next_id w) (Fulfilled Undefined),
              Resume (next_id w) (Fulfilled Undefined), Resume (next_id w) (Fulfilled Undefined),
              Resume (next_id w) (Fulfilled Undefined), Resume (next_id w) (Fulfilled Undefined),
              Resume (next_id w) (Fulfilled (NewRecording (Some uri)))] w)"

definition five_seconds :: "string \<Rightarrow> world \<Rightarrow> world" where
  "five_seconds uri w =
     rotation uri (second_passes (second_passes (second_passes (second_passes (second_passes w)))))"

text \<open>A session started and recorded without interruption for \<open>5 * n\<close> seconds; \<open>uri k\<close>
  is the URI of the \<open>k\<close>-th recording the device opens.\<close>

fun continuous_recording :: "(nat \<Rightarrow> string) \<Rightarrow> nat \<Rightarrow> world \<Rightarrow> world" where
  "continuous_recording uri 0 w = start_session (uri 0) w"
| "continuous_recording uri (Suc n) w = five_seconds (uri (Suc n)) (continuous_recording uri n w)"

text \<open>The stop button pressed while a recording is open, every promise fulfilled: stop,
  audio mode, move, audio mode.\<close>

definition stop_session :: "world \<Rightarrow> world" where
  "stop_session w =
     exec [PressRecord, Resume (next_id w) (Fulfilled Undefined),
           Resume (next_id w) (Fulfilled Undefined), Resume (next_id w) (Fulfilled Undefined),
           Resume (next_id w) (Fulfilled Undefined)] w"

text \<open>The segment that lines 165-177 build for sequence number \<open>n\<close> at time \<open>t\<close>.\<close>

definition saved_segment :: "string \<Rightarrow> nat \<Rightarrow> nat \<Rightarrow> segment" where
  "saved_segment dir n t = \<lparr>seg_id = segment_name n t, seg_uri = dir @ recording_name n t,
     fileName = recording_name n t, timestamp = t\<rparr>"

text \<open>The first six events of a rotation: the segment is saved and the next recording is
  being opened (\<open>createAsync\<close> has not settled).\<close>

definition rotation_until_create :: "world \<Rightarrow> world" where
  "rotation_until_create w = (case intervalRef w of
      None \<Rightarrow> w
    | Some i \<Rightarrow>
        exec [Fire i, Resume (next_id w) (Fulfilled Undefined),
              Resume (next_id w) (Fulfilled Undefined), Resume (next_id w) (Fulfilled Undefined),
              Resume (next_id w) (Fulfilled Undefined), Resume (next_id w) (Fulfilled Undefined)] w)"

text \<open>
  A concrete history, with the directory and the URI of the test suite's mocks: the
  component is mounted, records for five seconds (one rotation), and is stopped, which
  leaves two segments in the list; then the first one is pressed and plays.
\<close>

definition mock_dir :: string where
  "mock_dir = ''file:///mock/document/directory/''"

definition mock_uri :: "nat \<Rightarrow> string" where
  "mock_uri k = ''mock://recording.m4a''"

definition two_segments :: world where
  "two_segments = stop_session (continuous_recording mock_uri 1 (init_world mock_dir))"

definition first_segment_playing :: world where
  "first_segment_playing =
     exec [PressSegment 0, Resume (next_id two_segments) (Fulfilled NewSound)] two_segments"

text \<open>A segment of the list is pressed while a sound is loaded: the unload is fulfilled
  (which ends the call when the pressed segment is the one playing); then the load of the
  pressed segment is fulfilled, or rejected.\<close>

definition press_unload :: "nat \<Rightarrow> world \<Rightarrow> world" where
  "press_unload i w = exec [PressSegment i, Resume (next_id w) (Fulfilled Undefined)] w"

definition press_replace :: "nat \<Rightarrow> world \<Rightarrow> world" where
  "press_replace i w =
     exec [PressSegment i, Resume (next_id w) (Fulfilled Undefined),
           Resume (next_id w) (Fulfilled NewSound)] w"

definition press_replace_fails :: "nat \<Rightarrow> world \<Rightarrow> world" where
  "press_replace_fails i w =
     exec [PressSegment i, Resume (next_id w) (Fulfilled Undefined),
           Resume (next_id w) Rejected] w"

text \<open>A minute after the history above, a second session is started and stopped at once.\<close>

definition second_session :: world where
  "second_session =
     stop_session (start_session (mock_uri 2) (exec [ClockAdvance 60000] two_segments))"

text \<open>
  The record button is pressed twice before the permission request of the first press
  has settled (the button reads \<open>isRecording\<close>, which is still \<open>false\<close>); then every promise
  of both calls is fulfilled, those of the first call first.
\<close>

definition two_starts :: world where
  "two_starts =
     exec [PressRecord, PressRecord,
           Resume 1 (Fulfilled (PermissionResponse Granted)), Resume 1 (Fulfilled Undefined),
           Resume 2 (Fulfilled (PermissionResponse Granted)), Resume 2 (Fulfilled Undefined),
           Resume 1 (Fulfilled Undefined), Resume 2 (Fulfilled Undefined),
           Resume 1 (Fulfilled (NewRecording (Some (mock_uri 0)))),
           Resume 2 (Fulfilled (NewRecording (Some (mock_uri 1))))] (init_world mock_dir)"

text \<open>
  The component is mounted and the record button pressed; permission is granted, the audio
  mode is set (lines 42 and 120), and \<open>Audio.Recording.createAsync\<close> rejects.  The last
  event settles the audio-mode call of the \<open>stopRecording()\<close> that line 135 started.
\<close>

definition first_open_fails :: world where
  "first_open_fails =
     exec [PressRecord, Resume 1 (Fulfilled (PermissionResponse Granted)),
           Resume 1 (Fulfilled Undefined), Resume 1 (Fulfilled Undefined), Resume 1 Rejected,
           Resume 2 (Fulfilled Undefined)] (init_world mock_dir)"

text \<open>Five seconds into a first session, the rotation has saved its segment and the next
  recording is being opened.\<close>

definition reopening :: world where
  "reopening =
     rotation_until_create (second_passes (second_passes (second_passes (second_passes
       (second_passes (start_session (mock_uri 0) (init_world mock_dir)))))))"

text \<open>The same history as one list of events.\<close>

definition reopening_events :: "event list" where
  "reopening_events =
     [PressRecord, Resume 1 (Fulfilled (PermissionResponse Granted)),
      Resume 1 (Fulfilled Undefined), Resume 1 (Fulfilled Undefined),
      Resume 1 (Fulfilled (NewRecording (Some (mock_uri 0)))),
      ClockAdvance 1000, Fire 3, ClockAdvance 1000, Fire 3, ClockAdvance 1000, Fire 3,
      ClockAdvance 1000, Fire 3, ClockAdvance 1000, Fire 3,
      Fire 4, Resume 5 (Fulfilled Undefined), Resume 5 (Fulfilled Undefined),
      Resume 5 (Fulfilled Undefined), Resume 5 (Fulfilled Undefined),
      Resume 5 (Fulfilled Undefined)]"

subsection \<open>Auxiliary notions\<close>

text \<open>A map without the key a ref holds, if it holds one.\<close>

definition without :: "nat option \<Rightarrow> (nat \<rightharpoonup> 'a) \<Rightarrow> (nat \<rightharpoonup> 'a)" where
  "without r m = (case r of None \<Rightarrow> m | Some i \<Rightarrow> m(i := None))"

text \<open>A session in progress between two rotations, its timers created in closure \<open>cl\<close>.\<close>

definition steady :: "closure \<Rightarrow> world \<Rightarrow> bool" where
  "steady cl w = (isRecordingRef w \<and> c_recording cl = None
     \<and> (case recordingRef w of
           None \<Rightarrow> False
         | Some r \<Rightarrow> (case rec_uri r of None \<Rightarrow> False | Some u \<Rightarrow> u \<noteq> []))
     \<and> (case timerRef w of None \<Rightarrow> False | Some i \<Rightarrow> timers w i = Some SecondTimer)
     \<and> (case intervalRef w of None \<Rightarrow> False | Some j \<Rightarrow> timers w j = Some (SplitTimer cl)))"

text \<open>A call of \<open>startNewSegment\<close> that waits at one of its \<open>await\<close>s has passed the guard
  of line 113, so its closure holds no recording; \<open>guard_inv\<close> says so of every pending
  call, \<open>ok_out\<close> of what a synchronous piece leaves behind.\<close>

definition passed_guard :: "closure \<Rightarrow> pc \<Rightarrow> bool" where
  "passed_guard cl p = (case p of
      StartNewSegment_audioMode k \<Rightarrow> c_recording cl = None
    | StartNewSegment_create k \<Rightarrow> c_recording cl = None
    | _ \<Rightarrow> True)"

definition guard_inv :: "world \<Rightarrow> bool" where
  "guard_inv w = (\<forall>t cl p. tasks w t = Some (cl, p) \<longrightarrow> passed_guard cl p)"

definition ok_out :: "closure \<Rightarrow> outcome \<Rightarrow> bool" where
  "ok_out cl out = (guard_inv (fst out) \<and> (\<forall>p. snd out = Some p \<longrightarrow> passed_guard cl p))"

text \<open>Reading a decimal numeral back.\<close>

definition digit_val :: "char \<Rightarrow> nat" where
  "digit_val c = of_char c - 48"

definition undec :: "string \<Rightarrow> nat" where
  "undec xs = foldl (\<lambda>a c. 10 * a + digit_val c) 0 xs"

subsection \<open>Calls that do not overlap\<close>

text \<open>
  The handles the refs account for, and what a call that waits at an \<open>await\<close> leaves of
  them: the call that waits for \<open>stopAndUnloadAsync\<close> has cleared the refs of the recording
  it stops (lines 148-149), and the call that opens a recording found the ref empty
  (line 113).  \<open>one_call\<close> holds of a world in which at most one call is pending, in such a
  state.
\<close>

definition ref_ids :: "world \<Rightarrow> nat set" where
  "ref_ids w = (case recordingRef w of None \<Rightarrow> {} | Some r \<Rightarrow> {rec_id r})"

fun being_stopped :: "pc \<Rightarrow> nat option" where
  "being_stopped (Save_stop k cur) = Some (rec_id cur)"
| "being_stopped p = None"

fun is_opening :: "pc \<Rightarrow> bool" where
  "is_opening (StartNewSegment_audioMode k) = True"
| "is_opening (StartNewSegment_create k) = True"
| "is_opening p = False"

definition task_ok :: "world \<Rightarrow> pc \<Rightarrow> bool" where
  "task_ok w p = (case being_stopped p of
      Some i \<Rightarrow> open_handles w \<subseteq> {i} \<and> recordingRef w = None
    | None \<Rightarrow> open_handles w \<subseteq> ref_ids w \<and> (is_opening p \<longrightarrow> recordingRef w = None))"

definition quiet :: "world \<Rightarrow> bool" where
  "quiet w = (tasks w = Map.empty \<and> open_handles w \<subseteq> ref_ids w)"

definition one_call :: "world \<Rightarrow> bool" where
  "one_call w = (quiet w \<or> (\<exists>t cl p. tasks w = [t \<mapsto> (cl, p)] \<and> task_ok w p))"

definition ok_piece :: "outcome \<Rightarrow> bool" where
  "ok_piece out = (case snd out of
      None \<Rightarrow> one_call (fst out)
    | Some p \<Rightarrow> tasks (fst out) = Map.empty \<and> task_ok (fst out) p)"

text \<open>The events that start a call of \<open>startRecording\<close>, \<open>stopRecording\<close>,
  \<open>handleSegmentSplit\<close> or \<open>playSegment\<close>, and the histories in which a call starts only
  when none is pending.\<close>

definition starts_call :: "world \<Rightarrow> event \<Rightarrow> bool" where
  "starts_call w e = (case e of
      PressRecord \<Rightarrow> True
    | PressSegment i \<Rightarrow> True
    | Fire i \<Rightarrow> (case timers w i of Some (SplitTimer cl) \<Rightarrow> True | _ \<Rightarrow> False)
    | _ \<Rightarrow> False)"

fun sequential :: "world \<Rightarrow> event list \<Rightarrow> bool" where
  "sequential w [] = True"
| "sequential w (e # es) =
     ((starts_call w e \<longrightarrow> tasks w = Map.empty) \<and> sequential (step w e) es)"

text \<open>The history of \<open>continuous_recording mock_uri 1\<close> as one list of events.\<close>

definition five_seconds_events :: "event list" where
  "five_seconds_events =
     reopening_events @ [Resume 5 (Fulfilled (NewRecording (Some (mock_uri 1))))]"

subsection \<open>A session left to itself\<close>

text \<open>
  While a session records and nobody touches the component, the events are the passing of
  time, the ticks of the session's two timers, and the settling of the promises its
  rotations wait for.  \<open>fulfils p r\<close>: the promise awaited at \<open>p\<close> is fulfilled by \<open>r\<close>, a new
  recording reporting a non-empty URI.  \<open>session_event\<close> admits a tick of the rotation timer
  only when no call is pending, that is, when the previous rotation has finished.
\<close>

fun fulfils :: "pc \<Rightarrow> value awaited \<Rightarrow> bool" where
  "fulfils (StartNewSegment_create k) (Fulfilled (NewRecording (Some u))) = (u \<noteq> [])"
| "fulfils (StartNewSegment_create k) r = False"
| "fulfils p r = (r = Fulfilled Undefined)"

definition session_event :: "world \<Rightarrow> event \<Rightarrow> bool" where
  "session_event w e = (case e of
      ClockAdvance d \<Rightarrow> True
    | Fire i \<Rightarrow> timerRef w = Some i \<or> (intervalRef w = Some i \<and> tasks w = Map.empty)
    | Resume t r \<Rightarrow> (case tasks w t of None \<Rightarrow> False | Some (cl, p) \<Rightarrow> fulfils p r)
    | _ \<Rightarrow> False)"

fun undisturbed :: "world \<Rightarrow> event list \<Rightarrow> bool" where
  "undisturbed w [] = True"
| "undisturbed w (e # es) = (session_event w e \<and> undisturbed (step w e) es)"

text \<open>The ticks of the rotation timer in a history.\<close>

definition rotation_tick :: "world \<Rightarrow> event \<Rightarrow> bool" where
  "rotation_tick w e = (case e of Fire i \<Rightarrow> intervalRef w = Some i | _ \<Rightarrow> False)"

fun rotation_ticks :: "world \<Rightarrow> event list \<Rightarrow> nat" where
  "rotation_ticks w [] = 0"
| "rotation_ticks w (e # es) =
     (if rotation_tick w e then 1 else 0) + rotation_ticks (step w e) es"

text \<open>The segments that lines 165-177 build for consecutive sequence numbers, from \<open>c\<close> on,
  at the given times.\<close>

fun saved_segments :: "string \<Rightarrow> nat \<Rightarrow> nat list \<Rightarrow> segment list" where
  "saved_segments dir c [] = []"
| "saved_segments dir c (t # ts) = saved_segment dir c t # saved_segments dir (Suc c) ts"

text \<open>
  What holds all along such a session, after \<open>m\<close> ticks of the rotation timer, of a
  component that had the segments \<open>old\<close> and the counter at \<open>c\<close> when it started: either a
  recording is held and nothing is pending, or the rotation is pending at one of its
  \<open>await\<close>s, its segment already in the list or not yet.
\<close>

definition good_uri :: "recording_obj \<Rightarrow> bool" where
  "good_uri r = (case rec_uri r of None \<Rightarrow> False | Some u \<Rightarrow> u \<noteq> [])"

definition produced :: "string \<Rightarrow> nat \<Rightarrow> segment list \<Rightarrow> nat \<Rightarrow> world \<Rightarrow> bool" where
  "produced dir c old m w = (documentDirectory w = dir \<and> segmentCountRef w = c + m
     \<and> length (recordingSegments w) = length old + m
     \<and> recordingSegments w =
         old @ saved_segments dir c (map timestamp (drop (length old) (recordingSegments w))))"

fun pending :: "string \<Rightarrow> nat \<Rightarrow> segment list \<Rightarrow> nat \<Rightarrow> world \<Rightarrow> pc \<Rightarrow> bool" where
  "pending dir c old m w (Save_stop k cur) =
     (k = SplitSaveCaller \<and> good_uri cur \<and> 0 < m \<and> produced dir c old (m - 1) w)"
| "pending dir c old m w (Save_audioMode k cur) =
     (k = SplitSaveCaller \<and> good_uri cur \<and> 0 < m \<and> produced dir c old (m - 1) w)"
| "pending dir c old m w (Save_move k ts name newUri) =
     (k = SplitSaveCaller \<and> 0 < m \<and> produced dir c old (m - 1) w
      \<and> name = recording_name (c + (m - 1)) ts \<and> newUri = dir @ name)"
| "pending dir c old m w Split_delay = produced dir c old m w"
| "pending dir c old m w (StartNewSegment_audioMode k) =
     (k = SplitCaller \<and> produced dir c old m w)"
| "pending dir c old m w (StartNewSegment_create k) =
     (k = SplitCaller \<and> produced dir c old m w)"
| "pending dir c old m w p = False"

definition session :: "closure \<Rightarrow> world \<Rightarrow> bool" where
  "session cl w = (isRecording w \<and> isRecordingRef w \<and> c_recording cl = None
     \<and> (case timerRef w of None \<Rightarrow> False | Some i \<Rightarrow> timers w i = Some SecondTimer)
     \<and> (case intervalRef w of None \<Rightarrow> False | Some j \<Rightarrow> timers w j = Some (SplitTimer cl)))"

definition rotating ::
  "closure \<Rightarrow> string \<Rightarrow> nat \<Rightarrow> segment list \<Rightarrow> nat \<Rightarrow> world \<Rightarrow> bool" where
  "rotating cl dir c old m w = (session cl w
     \<and> (case recordingRef w of
          Some r \<Rightarrow> tasks w = Map.empty \<and> good_uri r \<and> produced dir c old m w
        | None \<Rightarrow> (\<exists>t p. tasks w = [t \<mapsto> (cl, p)] \<and> pending dir c old m w p)))"

subsection \<open>Further histories\<close>

text \<open>
  Ten seconds of a first session as events after its start: the rotation timer ticks at
  5 and at 10 seconds, the second time before the one-second timer, and each rotation runs
  to its end before the next tick.
\<close>

definition ten_seconds_events :: "event list" where
  "ten_seconds_events =
     [ClockAdvance 1000, Fire 3, ClockAdvance 1000, Fire 3, ClockAdvance 1000, Fire 3,
      ClockAdvance 1000, Fire 3, ClockAdvance 1000, Fire 3,
      Fire 4, Resume 5 (Fulfilled Undefined), Resume 5 (Fulfilled Undefined),
      Resume 5 (Fulfilled Undefined), Resume 5 (Fulfilled Undefined),
      Resume 5 (Fulfilled Undefined), Resume 5 (Fulfilled (NewRecording (Some (mock_uri 1)))),
      ClockAdvance 1000, Fire 3, ClockAdvance 1000, Fire 3, ClockAdvance 1000, Fire 3,
      ClockAdvance 1000, Fire 3, ClockAdvance 1000,
      Fire 4, Fire 3, Resume 7 (Fulfilled Undefined), Resume 7 (Fulfilled Undefined),
      Resume 7 (Fulfilled Undefined), Resume 7 (Fulfilled Undefined),
      Resume 7 (Fulfilled Undefined), Resume 7 (Fulfilled (NewRecording (Some (mock_uri 2))))]"

text \<open>
  A slow rotation: the rotation of the fifth second has stopped its recording and waits for
  \<open>moveAsync\<close> when, five seconds later, the rotation timer ticks again; then the move and
  every later promise are fulfilled.
\<close>

definition slow_rotation_events :: "event list" where
  "slow_rotation_events =
     [PressRecord, Resume 1 (Fulfilled (PermissionResponse Granted)),
      Resume 1 (Fulfilled Undefined), Resume 1 (Fulfilled Undefined),
      Resume 1 (Fulfilled (NewRecording (Some (mock_uri 0)))),
      ClockAdvance 1000, Fire 3, ClockAdvance 1000, Fire 3, ClockAdvance 1000, Fire 3,
      ClockAdvance 1000, Fire 3, ClockAdvance 1000, Fire 3,
      Fire 4, Resume 5 (Fulfilled Undefined), Resume 5 (Fulfilled Undefined),
      ClockAdvance 1000, Fire 3, ClockAdvance 1000, Fire 3, ClockAdvance 1000, Fire 3,
      ClockAdvance 1000, Fire 3, ClockAdvance 1000, Fire 3,
      Fire 4,
      Resume 5 (Fulfilled Undefined), Resume 5 (Fulfilled Undefined),
      Resume 5 (Fulfilled Undefined),
      Resume 5 (Fulfilled (NewRecording (Some (mock_uri 1))))]"

definition slow_rotation :: world where
  "slow_rotation = exec slow_rotation_events (init_world mock_dir)"

text \<open>
  A stop that overtakes a save: the rotation of the fifth second waits for \<open>moveAsync\<close> when
  the stop button is pressed; the stop is completed, then the move is fulfilled and the
  rotation ends at line 208.  After that a second session is started and records for five
  seconds, with one rotation.
\<close>

definition late_save :: world where
  "late_save =
     exec [PressRecord, Resume 1 (Fulfilled (PermissionResponse Granted)),
           Resume 1 (Fulfilled Undefined), Resume 1 (Fulfilled Undefined),
           Resume 1 (Fulfilled (NewRecording (Some (mock_uri 0)))),
           ClockAdvance 1000, Fire 3, ClockAdvance 1000, Fire 3, ClockAdvance 1000, Fire 3,
           ClockAdvance 1000, Fire 3, ClockAdvance 1000, Fire 3,
           Fire 4, Resume 5 (Fulfilled Undefined), Resume 5 (Fulfilled Undefined),
           PressRecord, Resume 6 (Fulfilled Undefined),
           Resume 5 (Fulfilled Undefined), Resume 5 (Fulfilled Undefined)]
       (init_world mock_dir)"

definition restarted :: world where
  "restarted = continuous_recording mock_uri 1 late_save"

text \<open>Four seconds into a first session.\<close>

definition four_seconds :: world where
  "four_seconds =
     second_passes (second_passes (second_passes (second_passes
       (start_session (mock_uri 0) (init_world mock_dir)))))"

text \<open>The settlements at which the \<open>saveCurrentSegment\<close> of a rotation returns to
  \<open>handleSegmentSplit\<close> (line 197): a rejection at any of its three \<open>await\<close>s, a recording
  without URI (line 160), or the move fulfilled.\<close>

fun split_save_ends :: "pc \<Rightarrow> value awaited \<Rightarrow> bool" where
  "split_save_ends (Save_stop SplitSaveCaller cur) r = (r = Rejected)"
| "split_save_ends (Save_audioMode SplitSaveCaller cur) r =
     (r = Rejected \<or> (r = Fulfilled Undefined \<and> (rec_uri cur = None \<or> rec_uri cur = Some [])))"
| "split_save_ends (Save_move SplitSaveCaller ts name newUri) r =
     (r = Rejected \<or> r = Fulfilled Undefined)"
| "split_save_ends p r = False"

text \<open>
  The history \<open>reopening\<close> goes on: the stop button is pressed while the rotation is opening
  the next recording, and the audio-mode call of that stop is fulfilled, so the session is
  over.  Then \<open>Audio.Recording.createAsync\<close> of the rotation rejects, and the audio-mode call
  of the \<open>stopRecording()\<close> that line 135 starts is fulfilled.
\<close>

definition stopped_while_reopening :: world where
  "stopped_while_reopening = exec [PressRecord, Resume 6 (Fulfilled Undefined)] reopening"

definition reopen_fails_after_stop :: world where
  "reopen_fails_after_stop =
     exec [Resume 5 Rejected, Resume 7 (Fulfilled Undefined)] stopped_while_reopening"

section \<open>Basic facts\<close>

subsection \<open>Decimal numerals\<close>

lemma digit_cases:
  "d < 10 \<Longrightarrow> d = 0 \<or> d = 1 \<or> d = 2 \<or> d = 3 \<or> d = 4 \<or> d = 5 \<or> d = 6 \<or> d = 7 \<or> d = 8 \<or> d = (9::nat)"
  by arith

lemma digit_val_digit: "d < 10 \<Longrightarrow> digit_val (''0123456789'' ! d) = d"
  using digit_cases [of d] by (auto simp: digit_val_def)

lemma digit_not_underscore: "d < 10 \<Longrightarrow> ''0123456789'' ! d \<noteq> CHR ''_''"
  using digit_cases [of d] by auto

lemma undec_dec: "undec (dec n) = n"
proof (induction n rule: dec.induct)
  case (1 n)
  show ?case
  proof (cases "n < 10")
    case True
    then show ?thesis
      by (subst dec.simps) (simp add: undec_def digit_val_digit)
  next
    case False
    then have "undec (dec (n div 10)) = n div 10"
      using "1" by simp
    then show ?thesis
      using False by (subst dec.simps) (simp add: undec_def digit_val_digit)
  qed
qed

lemma dec_inj: "dec a = dec b \<Longrightarrow> a = b"
  by (metis undec_dec)

lemma underscore_notin_dec: "CHR ''_'' \<notin> set (dec n)"
proof (induction n rule: dec.induct)
  case (1 n)
  show ?case
  proof (cases "n < 10")
    case True
    then show ?thesis
      using digit_not_underscore [of n] by (subst dec.simps) auto
  next
    case False
    then show ?thesis
      using "1" digit_not_underscore [of "n mod 10"] by (subst dec.simps) auto
  qed
qed

lemma segment_name_inj:
  assumes "segment_name a t = segment_name b u"
  shows "a = b \<and> t = u"
proof -
  from assms have "dec a @ CHR ''_'' # dec t = dec b @ CHR ''_'' # dec u"
    by (simp add: segment_name_def)
  then have "dec a = dec b \<and> dec t = dec u"
    using underscore_notin_dec by (simp add: append_Cons_eq_iff)
  then show ?thesis
    by (auto dest: dec_inj)
qed

lemma recording_name_inj:
  assumes "recording_name a t = recording_name b u"
  shows "a = b \<and> t = u"
proof -
  from assms have "dec a @ CHR ''_'' # dec t = dec b @ CHR ''_'' # dec u"
    by (simp add: recording_name_def)
  then have "dec a = dec b \<and> dec t = dec u"
    using underscore_notin_dec by (simp add: append_Cons_eq_iff)
  then show ?thesis
    by (auto dest: dec_inj)
qed

subsection \<open>Evaluating events\<close>

lemma clear_if_set_eq: "clear_if_set r w = w\<lparr>timers := without r (timers w)\<rparr>"
  by (simp add: clear_if_set_def clearInterval_def without_def split: option.splits)

lemma effect_cleanup_eq:
  "effect_cleanup old w =
     w\<lparr>timers := without (timerRef w) (without (intervalRef w) (timers w)),
       calls := calls w @ (case old of None \<Rightarrow> [] | Some s \<Rightarrow> [UnloadSound s])
                  @ (case recordingRef w of None \<Rightarrow> [] | Some r \<Rightarrow> [StopAndUnload (rec_id r)]),
       loaded_sounds := loaded_sounds w - set_option old,
       open_handles := open_handles w
                         - (case recordingRef w of None \<Rightarrow> {} | Some r \<Rightarrow> {rec_id r})\<rparr>"
  by (simp add: effect_cleanup_def clear_if_set_eq device_call_def Let_def split: option.splits)

lemmas piece_defs =
  Alert_alert_def device_call_def setInterval_def clearInterval_def clear_if_set_eq spawn_def
  render_def stopRecording_2_def stopRecording_1_def handleSegmentSplit_1_def after_save_def
  saveCurrentSegment_def saveCurrentSegment_1_def saveCurrentSegment_2_def
  saveCurrentSegment_3_def stopRecording_0_def stopRecording_def startRecording_3_def
  after_startNewSegment_def startNewSegment_catch_def startNewSegment_def
  startNewSegment_1_def startNewSegment_2_def startRecording_catch_def startRecording_0_def
  startRecording_1_def startRecording_2_def startRecording_def handleSegmentSplit_0_def
  handleSegmentSplit_2_def handleSegmentSplit_def second_tick_def handleRecordButtonPress_def
  playSegment_catch_def playSegment_0_def playSegment_1_def playSegment_2_def playSegment_def
  on_didJustFinish_def effect_cleanup_eq commit_render_def handle_event_def step_def exec_def

lemmas run_defs =
  start_session_def second_passes_def rotation_def five_seconds_def stop_session_def
  rotation_until_create_def saved_segment_def mock_dir_def mock_uri_def two_segments_def
  first_segment_playing_def init_world_def without_def recording_name_def segment_name_def
  dec.simps

lemma exec_append: "exec (es @ fs) w = exec fs (exec es w)"
  by (simp add: exec_def)

subsection \<open>A session between two rotations\<close>

lemma steadyD:
  assumes "steady cl w"
  obtains r u i j where "isRecordingRef w" "c_recording cl = None" "recordingRef w = Some r"
    "rec_uri r = Some u" "u \<noteq> []" "timerRef w = Some i" "timers w i = Some SecondTimer"
    "intervalRef w = Some j" "timers w j = Some (SplitTimer cl)"
  using assms unfolding steady_def by (auto split: option.splits)

lemma start_session_eq:
  assumes "\<not> isRecording w" "recording w = None" "recordingRef w = None"
  shows "start_session uri w =
    w\<lparr>isRecording := True, isRecordingRef := True,
       calls := calls w @ [RequestPermissions, SetAudioMode True, SetAudioMode True,
                           CreateRecording],
       tasks := (tasks w)(next_id w := None),
       open_handles := insert (Suc (next_id w)) (open_handles w),
       recording := Some \<lparr>rec_id = Suc (next_id w), rec_uri = Some uri\<rparr>,
       recordingRef := Some \<lparr>rec_id = Suc (next_id w), rec_uri = Some uri\<rparr>,
       timerRef := Some (Suc (Suc (next_id w))),
       timers := (timers w)(Suc (Suc (next_id w)) \<mapsto> SecondTimer,
                  Suc (Suc (Suc (next_id w))) \<mapsto> SplitTimer (render w)),
       next_id := Suc (Suc (Suc (Suc (next_id w)))),
       intervalRef := Some (Suc (Suc (Suc (next_id w))))\<rparr>"
  using assms by (simp add: start_session_def piece_defs Let_def)

lemma start_session_steady:
  assumes "\<not> isRecording w" "recording w = None" "recordingRef w = None" "uri \<noteq> []"
  shows "steady (render w) (start_session uri w)"
  using assms by (simp add: start_session_eq steady_def render_def)

lemma second_passes_eq:
  assumes "timerRef w = Some i" "timers w i = Some SecondTimer"
  shows "second_passes w = w\<lparr>now := now w + 1000, recordingTime := Suc (recordingTime w),
            segmentProgress := Suc (segmentProgress w) mod 5\<rparr>"
  using assms by (simp add: second_passes_def piece_defs Let_def)

lemma second_passes_steady:
  assumes "steady cl w"
  shows "steady cl (second_passes w)"
  using assms by (elim steadyD) (simp add: second_passes_eq steady_def)

lemma rotation_eq:
  assumes "isRecordingRef w" "c_recording cl = None" "recordingRef w = Some r"
    "rec_uri r = Some u" "u \<noteq> []" "intervalRef w = Some j"
    "timers w j = Some (SplitTimer cl)"
  shows "rotation uri w =
    w\<lparr>segmentCountRef := Suc (segmentCountRef w),
       recordingSegments := recordingSegments w
          @ [saved_segment (documentDirectory w) (segmentCountRef w) (now w)],
       segmentProgress := 0,
       calls := calls w @
          [StopAndUnload (rec_id r), SetAudioMode False,
           MoveFile u (documentDirectory w @ recording_name (segmentCountRef w) (now w)),
           SetAudioMode True, CreateRecording],
       tasks := (tasks w)(next_id w := None),
       next_id := Suc (Suc (next_id w)),
       open_handles := insert (Suc (next_id w)) (open_handles w - {rec_id r}),
       recording := Some \<lparr>rec_id = Suc (next_id w), rec_uri = Some uri\<rparr>,
       recordingRef := Some \<lparr>rec_id = Suc (next_id w), rec_uri = Some uri\<rparr>\<rparr>"
  using assms by (simp add: rotation_def saved_segment_def piece_defs Let_def)

lemma rotation_steady:
  assumes "steady cl w" "uri \<noteq> []"
  shows "steady cl (rotation uri w)"
  using assms by (elim steadyD) (simp add: rotation_eq steady_def)

lemma five_seconds_steady:
  assumes "steady cl w" "uri \<noteq> []"
  shows "steady cl (five_seconds uri w)
       \<and> recordingSegments (five_seconds uri w) =
           recordingSegments w @
             [saved_segment (documentDirectory w) (segmentCountRef w) (now w + 5000)]
       \<and> segmentCountRef (five_seconds uri w) = segmentCountRef w + 1
       \<and> now (five_seconds uri w) = now w + 5000
       \<and> documentDirectory (five_seconds uri w) = documentDirectory w
       \<and> recordingTime (five_seconds uri w) = recordingTime w + 5
       \<and> segmentProgress (five_seconds uri w) = 0
       \<and> isRecording (five_seconds uri w) = isRecording w"
proof -
  define w5 where
    "w5 = second_passes (second_passes (second_passes (second_passes (second_passes w))))"
  have s5: "steady cl w5"
    unfolding w5_def using assms(1) by (intro second_passes_steady)
  have eq5: "recordingSegments w5 = recordingSegments w
      \<and> segmentCountRef w5 = segmentCountRef w \<and> now w5 = now w + 5000
      \<and> documentDirectory w5 = documentDirectory w
      \<and> recordingTime w5 = recordingTime w + 5 \<and> isRecording w5 = isRecording w"
    using assms(1) unfolding w5_def by (elim steadyD) (simp add: second_passes_eq)
  have f: "five_seconds uri w = rotation uri w5"
    by (simp add: five_seconds_def w5_def)
  from s5 obtain r u i j where h: "isRecordingRef w5" "c_recording cl = None"
    "recordingRef w5 = Some r" "rec_uri r = Some u" "u \<noteq> []"
    "intervalRef w5 = Some j" "timers w5 j = Some (SplitTimer cl)"
    by (rule steadyD)
  note rot = rotation_eq [OF h, of uri]
  have st: "steady cl (rotation uri w5)"
    using s5 assms(2) by (rule rotation_steady)
  show ?thesis
    unfolding f using st eq5 by (simp add: rot)
qed

lemma continuous_recording_steady:
  assumes "\<not> isRecording w" "recording w = None" "recordingRef w = None"
    "\<forall>k. uri k \<noteq> []"
  shows "steady (render w) (continuous_recording uri n w)
       \<and> recordingSegments (continuous_recording uri n w) =
           recordingSegments w @
             map (\<lambda>k. saved_segment (documentDirectory w) (segmentCountRef w + k)
                        (now w + 5000 * (k + 1))) [0..<n]
       \<and> segmentCountRef (continuous_recording uri n w) = segmentCountRef w + n
       \<and> now (continuous_recording uri n w) = now w + 5000 * n
       \<and> documentDirectory (continuous_recording uri n w) = documentDirectory w
       \<and> recordingTime (continuous_recording uri n w) = recordingTime w + 5 * n
       \<and> isRecording (continuous_recording uri n w)"
proof (induction n)
  case 0
  show ?case
    using assms start_session_steady [of w "uri 0"] by (simp add: start_session_eq)
next
  case (Suc n)
  then have st: "steady (render w) (continuous_recording uri n w)"
    by simp
  have u: "uri (Suc n) \<noteq> []"
    using assms(4) by simp
  show ?case
    using five_seconds_steady [OF st u] Suc by (simp add: ac_simps)
qed

lemma distinct_saved_ids:
  "distinct (map (\<lambda>k. seg_id (saved_segment dir (c + k) (t k))) [0..<n])"
  by (auto simp: distinct_map saved_segment_def inj_on_def dest: segment_name_inj)

lemma distinct_saved_names:
  "distinct (map (\<lambda>k. fileName (saved_segment dir (c + k) (t k))) [0..<n])"
  by (auto simp: distinct_map saved_segment_def inj_on_def dest: recording_name_inj)

subsection \<open>The save of a rotation, and a stop by any closure\<close>

lemma rotation_tick_starts_save:
  assumes "isRecordingRef w" "recordingRef w = Some r" "intervalRef w = Some j"
    "timers w j = Some (SplitTimer cl)"
  shows "tasks (step w (Fire j)) (next_id w) = Some (cl, Save_stop SplitSaveCaller r)"
  using assms by (simp add: piece_defs Let_def)

lemma rotation_save_eq:
  assumes "isRecordingRef w" "c_recording cl = None" "recordingRef w = Some r"
    "rec_uri r = Some u" "u \<noteq> []" "intervalRef w = Some j"
    "timers w j = Some (SplitTimer cl)"
  shows "exec [Fire j, Resume (next_id w) (Fulfilled Undefined),
               Resume (next_id w) (Fulfilled Undefined),
               Resume (next_id w) (Fulfilled Undefined)] w =
    w\<lparr>segmentCountRef := Suc (segmentCountRef w),
       recordingSegments := recordingSegments w
          @ [saved_segment (documentDirectory w) (segmentCountRef w) (now w)],
       segmentProgress := 0,
       calls := calls w @
          [StopAndUnload (rec_id r), SetAudioMode False,
           MoveFile u (documentDirectory w @ recording_name (segmentCountRef w) (now w))],
       tasks := (tasks w)(next_id w \<mapsto> (cl, Split_delay)),
       next_id := Suc (next_id w),
       open_handles := open_handles w - {rec_id r},
       recording := None, recordingRef := None\<rparr>"
  using assms by (simp add: saved_segment_def piece_defs Let_def)

text \<open>\<open>stopRecording\<close> has no guard of its own: called through a closure that holds no
  recording, in any state, it resets, sets the audio mode and shows the completion alert
  for the segment list of that closure.\<close>

lemma stopRecording_unguarded:
  assumes "c_recording cl = None"
  shows "exec [Resume (next_id w) (Fulfilled Undefined)] (stopRecording cl w) =
         w\<lparr>isRecording := False, isRecordingRef := False,
           timers := without (timerRef w) (without (intervalRef w) (timers w)),
           intervalRef := None, timerRef := None, recordingTime := 0, segmentProgress := 0,
           calls := calls w @ [SetAudioMode False],
           next_id := Suc (next_id w),
           tasks := (tasks w)(next_id w := None),
           alerts := alerts w @ [StopSummary (length (c_recordingSegments cl))],
           segmentCountRef := 0\<rparr>"
  using assms by (simp add: piece_defs Let_def)

subsection \<open>The concrete history, evaluated\<close>

lemma recorded_five_seconds_eq:
  "continuous_recording mock_uri 1 (init_world mock_dir) =
   \<lparr>recording = Some \<lparr>rec_id = 6, rec_uri = Some ''mock://recording.m4a''\<rparr>,
      isRecording = True,
      recordingSegments =
        [\<lparr>seg_id = ''segment_0_5000'',
            seg_uri = ''file:///mock/document/directory/recording_0_5000.m4a'',
            fileName = ''recording_0_5000.m4a'', timestamp = 5000\<rparr>],
      recordingTime = 5, segmentProgress = 0, playingSegmentId = None, soundObject = None,
      intervalRef = Some 4, timerRef = Some 3, segmentCountRef = 1, isRecordingRef = True,
      recordingRef = Some \<lparr>rec_id = 6, rec_uri = Some ''mock://recording.m4a''\<rparr>,
      alerts = [],
      calls =
        [RequestPermissions, SetAudioMode True, SetAudioMode True, CreateRecording,
         StopAndUnload 2, SetAudioMode False,
         MoveFile ''mock://recording.m4a''
           ''file:///mock/document/directory/recording_0_5000.m4a'',
         SetAudioMode True, CreateRecording],
      open_handles = {6}, loaded_sounds = {}, status_callbacks = {},
      timers = [3 \<mapsto> SecondTimer, 4 \<mapsto> SplitTimer (render (init_world mock_dir))],
      tasks = Map.empty, next_id = 7, now = 5000,
      documentDirectory = ''file:///mock/document/directory/''\<rparr>"
  by (simp add: run_defs piece_defs Let_def fun_eq_iff)

lemma two_segments_eq:
  "two_segments =
   \<lparr>recording = None, isRecording = False,
      recordingSegments =
        [\<lparr>seg_id = ''segment_0_5000'',
            seg_uri = ''file:///mock/document/directory/recording_0_5000.m4a'',
            fileName = ''recording_0_5000.m4a'', timestamp = 5000\<rparr>,
         \<lparr>seg_id = ''segment_1_5000'',
            seg_uri = ''file:///mock/document/directory/recording_1_5000.m4a'',
            fileName = ''recording_1_5000.m4a'', timestamp = 5000\<rparr>],
      recordingTime = 0, segmentProgress = 0, playingSegmentId = None, soundObject = None,
      intervalRef = None, timerRef = None, segmentCountRef = 0, isRecordingRef = False,
      recordingRef = None, alerts = [StopSummary 2],
      calls =
        [RequestPermissions, SetAudioMode True, SetAudioMode True, CreateRecording,
         StopAndUnload 2, SetAudioMode False,
         MoveFile ''mock://recording.m4a''
           ''file:///mock/document/directory/recording_0_5000.m4a'',
         SetAudioMode True, CreateRecording, StopAndUnload 6, SetAudioMode False,
         MoveFile ''mock://recording.m4a''
           ''file:///mock/document/directory/recording_1_5000.m4a'',
         SetAudioMode False],
      open_handles = {}, loaded_sounds = {}, status_callbacks = {},
      timers = Map.empty, tasks = Map.empty, next_id = 8, now = 5000,
      documentDirectory = ''file:///mock/document/directory/''\<rparr>"
  unfolding two_segments_def recorded_five_seconds_eq
  by (simp add: run_defs piece_defs Let_def fun_eq_iff)

lemma first_segment_playing_eq:
  "first_segment_playing =
   two_segments\<lparr>playingSegmentId := Some ''segment_0_5000'', soundObject := Some 9,
      calls := calls two_segments
         @ [CreateSound ''file:///mock/document/directory/recording_0_5000.m4a''],
      loaded_sounds := {9}, status_callbacks := {9}, next_id := 10\<rparr>"
  unfolding first_segment_playing_def two_segments_eq
  by (simp add: piece_defs without_def Let_def fun_eq_iff)

lemma reopening_eq:
  "reopening =
   \<lparr>recording = None, isRecording = True,
      recordingSegments =
        [\<lparr>seg_id = ''segment_0_5000'',
            seg_uri = ''file:///mock/document/directory/recording_0_5000.m4a'',
            fileName = ''recording_0_5000.m4a'', timestamp = 5000\<rparr>],
      recordingTime = 5, segmentProgress = 0, playingSegmentId = None, soundObject = None,
      intervalRef = Some 4, timerRef = Some 3, segmentCountRef = 1, isRecordingRef = True,
      recordingRef = None, alerts = [],
      calls =
        [RequestPermissions, SetAudioMode True, SetAudioMode True, CreateRecording,
         StopAndUnload 2, SetAudioMode False,
         MoveFile ''mock://recording.m4a''
           ''file:///mock/document/directory/recording_0_5000.m4a'',
         SetAudioMode True, CreateRecording],
      open_handles = {}, loaded_sounds = {}, status_callbacks = {},
      timers = [3 \<mapsto> SecondTimer, 4 \<mapsto> SplitTimer (render (init_world mock_dir))],
      tasks = [5 \<mapsto> (render (init_world mock_dir), StartNewSegment_create SplitCaller)],
      next_id = 6, now = 5000,
      documentDirectory = ''file:///mock/document/directory/''\<rparr>"
  by (simp add: reopening_def run_defs piece_defs Let_def fun_eq_iff)

lemma reopening_events_eq: "exec reopening_events (init_world mock_dir) = reopening"
  unfolding reopening_eq
  by (simp add: reopening_events_def run_defs piece_defs Let_def fun_eq_iff)

lemma four_seconds_eq:
  "four_seconds =
   \<lparr>recording = Some \<lparr>rec_id = 2, rec_uri = Some ''mock://recording.m4a''\<rparr>,
      isRecording = True, recordingSegments = [],
      recordingTime = 4, segmentProgress = 4, playingSegmentId = None, soundObject = None,
      intervalRef = Some 4, timerRef = Some 3, segmentCountRef = 0, isRecordingRef = True,
      recordingRef = Some \<lparr>rec_id = 2, rec_uri = Some ''mock://recording.m4a''\<rparr>,
      alerts = [],
      calls = [RequestPermissions, SetAudioMode True, SetAudioMode True, CreateRecording],
      open_handles = {2}, loaded_sounds = {}, status_callbacks = {},
      timers = [3 \<mapsto> SecondTimer, 4 \<mapsto> SplitTimer (render (init_world mock_dir))],
      tasks = Map.empty, next_id = 5, now = 4000,
      documentDirectory = ''file:///mock/document/directory/''\<rparr>"
  by (simp add: four_seconds_def run_defs piece_defs Let_def fun_eq_iff)

lemma ten_seconds_eq:
  "exec ten_seconds_events (start_session (mock_uri 0) (init_world mock_dir)) =
   \<lparr>recording = Some \<lparr>rec_id = 8, rec_uri = Some ''mock://recording.m4a''\<rparr>,
      isRecording = True,
      recordingSegments =
        [\<lparr>seg_id = ''segment_0_5000'',
            seg_uri = ''file:///mock/document/directory/recording_0_5000.m4a'',
            fileName = ''recording_0_5000.m4a'', timestamp = 5000\<rparr>,
         \<lparr>seg_id = ''segment_1_10000'',
            seg_uri = ''file:///mock/document/directory/recording_1_10000.m4a'',
            fileName = ''recording_1_10000.m4a'', timestamp = 10000\<rparr>],
      recordingTime = 10, segmentProgress = 0, playingSegmentId = None, soundObject = None,
      intervalRef = Some 4, timerRef = Some 3, segmentCountRef = 2, isRecordingRef = True,
      recordingRef = Some \<lparr>rec_id = 8, rec_uri = Some ''mock://recording.m4a''\<rparr>,
      alerts = [],
      calls =
        [RequestPermissions, SetAudioMode True, SetAudioMode True, CreateRecording,
         StopAndUnload 2, SetAudioMode False,
         MoveFile ''mock://recording.m4a''
           ''file:///mock/document/directory/recording_0_5000.m4a'',
         SetAudioMode True, CreateRecording,
         StopAndUnload 6, SetAudioMode False,
         MoveFile ''mock://recording.m4a''
           ''file:///mock/document/directory/recording_1_10000.m4a'',
         SetAudioMode True, CreateRecording],
      open_handles = {8}, loaded_sounds = {}, status_callbacks = {},
      timers = [3 \<mapsto> SecondTimer, 4 \<mapsto> SplitTimer (render (init_world mock_dir))],
      tasks = Map.empty, next_id = 9, now = 10000,
      documentDirectory = ''file:///mock/document/directory/''\<rparr>"
  by (simp add: ten_seconds_events_def run_defs piece_defs Let_def fun_eq_iff)

lemma ten_seconds_undisturbed:
  "undisturbed (start_session (mock_uri 0) (init_world mock_dir)) ten_seconds_events"
  by (simp add: ten_seconds_events_def session_event_def run_defs piece_defs Let_def
      fun_eq_iff)

lemma ten_seconds_ticks:
  "rotation_ticks (start_session (mock_uri 0) (init_world mock_dir)) ten_seconds_events = 2"
  by (simp add: ten_seconds_events_def rotation_tick_def run_defs piece_defs Let_def)

lemma slow_rotation_eq:
  "slow_rotation =
   \<lparr>recording = Some \<lparr>rec_id = 6, rec_uri = Some ''mock://recording.m4a''\<rparr>,
      isRecording = True,
      recordingSegments =
        [\<lparr>seg_id = ''segment_0_5000'',
            seg_uri = ''file:///mock/document/directory/recording_0_5000.m4a'',
            fileName = ''recording_0_5000.m4a'', timestamp = 5000\<rparr>],
      recordingTime = 10, segmentProgress = 0, playingSegmentId = None, soundObject = None,
      intervalRef = Some 4, timerRef = Some 3, segmentCountRef = 1, isRecordingRef = True,
      recordingRef = Some \<lparr>rec_id = 6, rec_uri = Some ''mock://recording.m4a''\<rparr>,
      alerts = [],
      calls =
        [RequestPermissions, SetAudioMode True, SetAudioMode True, CreateRecording,
         StopAndUnload 2, SetAudioMode False,
         MoveFile ''mock://recording.m4a''
           ''file:///mock/document/directory/recording_0_5000.m4a'',
         SetAudioMode True, CreateRecording],
      open_handles = {6}, loaded_sounds = {}, status_callbacks = {},
      timers = [3 \<mapsto> SecondTimer, 4 \<mapsto> SplitTimer (render (init_world mock_dir))],
      tasks = Map.empty, next_id = 7, now = 10000,
      documentDirectory = ''file:///mock/document/directory/''\<rparr>"
  by (simp add: slow_rotation_def slow_rotation_events_def run_defs piece_defs Let_def
      fun_eq_iff)

lemma slow_rotation_ticks: "rotation_ticks (init_world mock_dir) slow_rotation_events = 2"
  by (simp add: slow_rotation_events_def rotation_tick_def run_defs piece_defs Let_def)

lemma late_save_eq:
  "late_save =
   \<lparr>recording = None, isRecording = False,
      recordingSegments =
        [\<lparr>seg_id = ''segment_0_5000'',
            seg_uri = ''file:///mock/document/directory/recording_0_5000.m4a'',
            fileName = ''recording_0_5000.m4a'', timestamp = 5000\<rparr>],
      recordingTime = 0, segmentProgress = 0, playingSegmentId = None, soundObject = None,
      intervalRef = None, timerRef = None, segmentCountRef = 1, isRecordingRef = False,
      recordingRef = None, alerts = [StopSummary 0],
      calls =
        [RequestPermissions, SetAudioMode True, SetAudioMode True, CreateRecording,
         StopAndUnload 2, SetAudioMode False,
         MoveFile ''mock://recording.m4a''
           ''file:///mock/document/directory/recording_0_5000.m4a'',
         SetAudioMode False],
      open_handles = {}, loaded_sounds = {}, status_callbacks = {},
      timers = Map.empty, tasks = Map.empty, next_id = 7, now = 5000,
      documentDirectory = ''file:///mock/document/directory/''\<rparr>"
  by (simp add: late_save_def run_defs piece_defs Let_def fun_eq_iff)

subsection \<open>The progress counter\<close>

lemma progress_runtime:
  "segmentProgress (Alert_alert a w) = segmentProgress w"
  "segmentProgress (device_call c w) = segmentProgress w"
  "segmentProgress (clearInterval i w) = segmentProgress w"
  "segmentProgress (clear_if_set r w) = segmentProgress w"
  "segmentProgress (fst (setInterval t w)) = segmentProgress w"
  "segmentProgress (spawn cl out) = segmentProgress (fst out)"
  by (simp_all add: Alert_alert_def device_call_def clearInterval_def clear_if_set_def
      setInterval_def spawn_def split: option.splits prod.splits)

lemma progress_stopRecording_2:
  "segmentProgress w < 5 \<Longrightarrow> segmentProgress (fst (stopRecording_2 fs r w)) < 5"
  by (simp add: stopRecording_2_def progress_runtime split: awaited.splits)

lemma progress_stopRecording_1:
  "segmentProgress w < 5 \<Longrightarrow> segmentProgress (fst (stopRecording_1 fs v w)) < 5"
  by (simp add: stopRecording_1_def progress_runtime Let_def)

lemma progress_handleSegmentSplit_1:
  "segmentProgress (fst (handleSegmentSplit_1 v w)) = 0"
  by (simp add: handleSegmentSplit_1_def Let_def)

lemma progress_after_save:
  "segmentProgress w < 5 \<Longrightarrow> segmentProgress (fst (after_save k v w)) < 5"
  by (simp add: after_save_def progress_stopRecording_1 progress_handleSegmentSplit_1
      split: save_caller.splits)

lemma progress_saveCurrentSegment:
  "segmentProgress w < 5 \<Longrightarrow> segmentProgress (fst (saveCurrentSegment k cl w)) < 5"
  by (simp add: saveCurrentSegment_def progress_after_save progress_runtime
      split: option.splits)

lemma progress_saveCurrentSegment_1:
  "segmentProgress w < 5 \<Longrightarrow> segmentProgress (fst (saveCurrentSegment_1 k cur r w)) < 5"
  by (simp add: saveCurrentSegment_1_def progress_after_save progress_runtime Let_def
      split: awaited.splits)

lemma progress_saveCurrentSegment_2:
  "segmentProgress w < 5 \<Longrightarrow> segmentProgress (fst (saveCurrentSegment_2 k cur r w)) < 5"
  by (simp add: saveCurrentSegment_2_def progress_after_save progress_runtime Let_def
      split: awaited.splits option.splits)

lemma progress_saveCurrentSegment_3:
  "segmentProgress w < 5 \<Longrightarrow> segmentProgress (fst (saveCurrentSegment_3 k t f u r w)) < 5"
  by (simp add: saveCurrentSegment_3_def progress_after_save Let_def split: awaited.splits)

lemma progress_stopRecording_0: "segmentProgress (fst (stopRecording_0 cl w)) = 0"
  by (simp add: stopRecording_0_def saveCurrentSegment_def progress_runtime Let_def
      split: option.splits)

lemma progress_stopRecording: "segmentProgress (stopRecording cl w) = 0"
  by (simp add: stopRecording_def progress_runtime progress_stopRecording_0)

lemma progress_startRecording_3:
  "segmentProgress (fst (startRecording_3 cl w)) = segmentProgress w"
  by (simp add: startRecording_3_def setInterval_def Let_def)

lemma progress_after_startNewSegment:
  "segmentProgress (fst (after_startNewSegment k cl w)) = segmentProgress w"
  by (simp add: after_startNewSegment_def progress_startRecording_3 split: new_caller.splits)

lemma progress_startNewSegment_catch:
  "segmentProgress (fst (startNewSegment_catch k cl w)) < 5"
  by (simp add: startNewSegment_catch_def progress_after_startNewSegment
      progress_stopRecording)

lemma progress_startNewSegment:
  "segmentProgress w < 5 \<Longrightarrow> segmentProgress (fst (startNewSegment k cl w)) < 5"
  by (simp add: startNewSegment_def progress_after_startNewSegment progress_runtime)

lemma progress_startNewSegment_1:
  "segmentProgress w < 5 \<Longrightarrow> segmentProgress (fst (startNewSegment_1 k cl r w)) < 5"
  by (simp add: startNewSegment_1_def progress_startNewSegment_catch progress_runtime
      split: awaited.splits)

lemma progress_startNewSegment_2:
  "segmentProgress w < 5 \<Longrightarrow> segmentProgress (fst (startNewSegment_2 k cl r w)) < 5"
  by (simp add: startNewSegment_2_def progress_startNewSegment_catch
      progress_after_startNewSegment Let_def split: awaited.splits)

lemma progress_startRecording_pieces:
  "segmentProgress w < 5 \<Longrightarrow> segmentProgress (fst (startRecording_catch w)) < 5"
  "segmentProgress w < 5 \<Longrightarrow> segmentProgress (fst (startRecording_0 cl w)) < 5"
  "segmentProgress w < 5 \<Longrightarrow> segmentProgress (fst (startRecording_1 cl r w)) < 5"
  "segmentProgress w < 5 \<Longrightarrow> segmentProgress (fst (startRecording_2 cl r' w)) < 5"
  "segmentProgress w < 5 \<Longrightarrow> segmentProgress (startRecording cl w) < 5"
  by (simp_all add: startRecording_catch_def startRecording_0_def startRecording_1_def
      startRecording_2_def startRecording_def progress_startNewSegment progress_runtime
      split: awaited.splits)

lemma progress_handleSegmentSplit:
  "segmentProgress w < 5 \<Longrightarrow> segmentProgress (fst (handleSegmentSplit_0 cl w)) < 5"
  "segmentProgress w < 5 \<Longrightarrow> segmentProgress (fst (handleSegmentSplit_2 cl w)) < 5"
  "segmentProgress w < 5 \<Longrightarrow> segmentProgress (handleSegmentSplit cl w) < 5"
  by (simp_all add: handleSegmentSplit_0_def handleSegmentSplit_2_def handleSegmentSplit_def
      progress_saveCurrentSegment progress_startNewSegment progress_runtime)

lemma progress_second_tick: "segmentProgress (second_tick w) = (segmentProgress w + 1) mod 5"
  by (simp add: second_tick_def)

lemma progress_handleRecordButtonPress:
  "segmentProgress w < 5 \<Longrightarrow> segmentProgress (handleRecordButtonPress cl w) < 5"
  by (simp add: handleRecordButtonPress_def progress_stopRecording
      progress_startRecording_pieces)

lemma progress_playSegment:
  "segmentProgress (fst (playSegment_catch w)) = segmentProgress w"
  "segmentProgress (fst (playSegment_0 cl seg w)) = segmentProgress w"
  "segmentProgress (fst (playSegment_1 cl seg r w)) = segmentProgress w"
  "segmentProgress (fst (playSegment_2 cl seg r w)) = segmentProgress w"
  "segmentProgress (playSegment cl seg w) = segmentProgress w"
  "segmentProgress (on_didJustFinish s w) = segmentProgress w"
  by (simp_all add: playSegment_catch_def playSegment_0_def playSegment_1_def
      playSegment_2_def playSegment_def on_didJustFinish_def progress_runtime Let_def
      split: awaited.splits option.splits)

lemma progress_commit_render: "segmentProgress (commit_render before w) = segmentProgress w"
  by (simp add: commit_render_def effect_cleanup_eq)

lemma progress_resume:
  assumes "segmentProgress w < 5" and "resume cl p r w = Some out"
  shows "segmentProgress (fst out) < 5"
  using assms
  by (cases "(cl, p, r, w)" rule: resume.cases)
     (auto simp: progress_startRecording_pieces progress_startNewSegment_1
       progress_startNewSegment_2 progress_saveCurrentSegment_1 progress_saveCurrentSegment_2
       progress_saveCurrentSegment_3 progress_stopRecording_2 progress_handleSegmentSplit
       progress_playSegment)

lemma progress_handle_event:
  assumes "segmentProgress w < 5"
  shows "segmentProgress (handle_event w e) < 5"
proof (cases e)
  case PressRecord
  then show ?thesis
    using assms by (simp add: handle_event_def progress_handleRecordButtonPress)
next
  case (PressSegment i)
  then show ?thesis
    using assms by (simp add: handle_event_def progress_playSegment)
next
  case (Fire i)
  then show ?thesis
    using assms
    by (simp add: handle_event_def progress_second_tick progress_handleSegmentSplit
        split: option.splits timer.splits)
next
  case (Resume i r)
  show ?thesis
  proof (cases "tasks w i")
    case None
    then show ?thesis
      using assms Resume by (simp add: handle_event_def)
  next
    case (Some a)
    obtain cl p where a: "a = (cl, p)"
      by (cases a)
    show ?thesis
    proof (cases "resume cl p r (w\<lparr>tasks := (tasks w)(i := None)\<rparr>)")
      case None
      then show ?thesis
        using assms Resume Some a by (simp add: handle_event_def)
    next
      case out: (Some out)
      have "segmentProgress (fst out) < 5"
        using progress_resume [OF _ out] assms by simp
      then show ?thesis
        using Resume Some a out
        by (cases out) (simp add: handle_event_def split: option.splits)
    qed
  qed
next
  case (DidJustFinish s)
  then show ?thesis
    using assms by (simp add: handle_event_def progress_playSegment)
next
  case (ClockAdvance d)
  then show ?thesis
    using assms by (simp add: handle_event_def)
qed

lemma progress_step: "segmentProgress w < 5 \<Longrightarrow> segmentProgress (step w e) < 5"
  by (simp add: step_def progress_commit_render progress_handle_event)

lemma progress_exec: "segmentProgress w < 5 \<Longrightarrow> segmentProgress (exec es w) < 5"
  unfolding exec_def by (induction es arbitrary: w) (simp_all add: progress_step)

lemma progress_split_save_ends:
  assumes "tasks w t = Some (cl, p)" and "split_save_ends p r"
  shows "segmentProgress (step w (Resume t r)) = 0
       \<and> tasks (step w (Resume t r)) t = Some (cl, Split_delay)"
  using assms
  by (cases "(p, r)" rule: split_save_ends.cases) (auto simp: piece_defs Let_def)

subsection \<open>Pending calls of \<open>startNewSegment\<close> have passed its guard\<close>

lemma guard_runtime:
  "guard_inv (Alert_alert a w) = guard_inv w"
  "guard_inv (device_call c w) = guard_inv w"
  "guard_inv (clear_if_set r w) = guard_inv w"
  "guard_inv (fst (setInterval t w)) = guard_inv w"
  by (simp_all add: guard_inv_def Alert_alert_def device_call_def clear_if_set_eq
      setInterval_def)

lemma guard_spawn: "ok_out cl out \<Longrightarrow> guard_inv (spawn cl out)"
  by (cases out) (auto simp: ok_out_def guard_inv_def spawn_def split: option.splits)

lemma guard_stopRecording_2: "guard_inv w \<Longrightarrow> ok_out cl (stopRecording_2 fs r w)"
  by (simp add: ok_out_def stopRecording_2_def guard_runtime guard_inv_def Alert_alert_def
      split: awaited.splits)

lemma guard_stopRecording_1: "guard_inv w \<Longrightarrow> ok_out cl (stopRecording_1 fs v w)"
  by (simp add: ok_out_def stopRecording_1_def Let_def guard_inv_def device_call_def
      passed_guard_def)

lemma guard_handleSegmentSplit_1: "guard_inv w \<Longrightarrow> ok_out cl (handleSegmentSplit_1 v w)"
  by (simp add: ok_out_def handleSegmentSplit_1_def Let_def guard_inv_def passed_guard_def
      split: option.splits)

lemma guard_after_save: "guard_inv w \<Longrightarrow> ok_out cl (after_save k v w)"
  by (simp add: after_save_def guard_stopRecording_1 guard_handleSegmentSplit_1
      split: save_caller.splits)

lemma guard_saveCurrentSegment: "guard_inv w \<Longrightarrow> ok_out cl (saveCurrentSegment k cl' w)"
proof -
  assume g: "guard_inv w"
  have "guard_inv (w\<lparr>recording := None, recordingRef := None\<rparr>)"
    using g by (simp add: guard_inv_def)
  then show ?thesis
    using guard_after_save [OF g, of cl k None]
    by (simp add: saveCurrentSegment_def ok_out_def guard_runtime passed_guard_def
        split: option.splits)
qed

lemma guard_saveCurrentSegment_1:
  "guard_inv w \<Longrightarrow> ok_out cl (saveCurrentSegment_1 k cur r w)"
proof -
  assume g: "guard_inv w"
  have g1: "guard_inv (w\<lparr>open_handles := open_handles w - {rec_id cur}\<rparr>)"
    using g by (simp add: guard_inv_def)
  show ?thesis
    using guard_after_save [OF g1, of cl k None] g1
    by (simp add: saveCurrentSegment_1_def Let_def ok_out_def guard_runtime passed_guard_def
        split: awaited.splits)
qed

lemma guard_saveCurrentSegment_2:
  "guard_inv w \<Longrightarrow> ok_out cl (saveCurrentSegment_2 k cur r w)"
  using guard_after_save [of w cl k None]
  by (simp add: saveCurrentSegment_2_def Let_def ok_out_def guard_runtime passed_guard_def
      split: awaited.splits option.splits)

lemma guard_saveCurrentSegment_3:
  "guard_inv w \<Longrightarrow> ok_out cl (saveCurrentSegment_3 k t f u r w)"
proof -
  assume g: "guard_inv w"
  have g1: "guard_inv (w\<lparr>segmentCountRef := segmentCountRef w + 1\<rparr>)"
    using g by (simp add: guard_inv_def)
  show ?thesis
    using guard_after_save [OF g, of cl k None] guard_after_save [OF g1, of cl k]
    by (simp add: saveCurrentSegment_3_def Let_def split: awaited.splits)
qed

lemma guard_stopRecording_0: "guard_inv w \<Longrightarrow> ok_out cl (stopRecording_0 cl' w)"
proof -
  assume g: "guard_inv w"
  define w4 where "w4 = (clear_if_set (timerRef w) (clear_if_set (intervalRef w)
      (w\<lparr>isRecording := False, isRecordingRef := False\<rparr>)))
        \<lparr>intervalRef := None, timerRef := None, recordingTime := 0, segmentProgress := 0\<rparr>"
  have g4: "guard_inv w4"
    using g by (simp add: w4_def guard_inv_def clear_if_set_eq)
  have "stopRecording_0 cl' w =
      (if c_recording cl' \<noteq> None
       then saveCurrentSegment (StopRecordingCaller (c_recordingSegments cl')) cl' w4
       else (device_call (SetAudioMode False) w4,
             Some (StopRecording_audioMode (c_recordingSegments cl'))))"
    by (simp add: stopRecording_0_def w4_def Let_def clear_if_set_eq)
  then show ?thesis
    using guard_saveCurrentSegment [OF g4] g4
    by (simp add: ok_out_def guard_runtime passed_guard_def)
qed

lemma guard_stopRecording: "guard_inv w \<Longrightarrow> guard_inv (stopRecording cl w)"
  by (simp add: stopRecording_def guard_spawn guard_stopRecording_0)

lemma guard_startRecording_3: "guard_inv w \<Longrightarrow> ok_out cl (startRecording_3 cl' w)"
  by (simp add: startRecording_3_def setInterval_def Let_def ok_out_def guard_inv_def)

lemma guard_after_startNewSegment:
  "guard_inv w \<Longrightarrow> ok_out cl (after_startNewSegment k cl' w)"
  using guard_startRecording_3 [of w cl cl']
  by (cases k) (simp_all add: after_startNewSegment_def ok_out_def)

lemma guard_startNewSegment_catch:
  "guard_inv w \<Longrightarrow> ok_out cl (startNewSegment_catch k cl' w)"
  by (simp add: startNewSegment_catch_def guard_after_startNewSegment guard_stopRecording
      guard_runtime)

lemma guard_startNewSegment: "guard_inv w \<Longrightarrow> ok_out cl (startNewSegment k cl w)"
  using guard_after_startNewSegment [of w cl k cl]
  by (simp add: startNewSegment_def ok_out_def guard_runtime passed_guard_def)

lemma guard_startNewSegment_1:
  "guard_inv w \<Longrightarrow> c_recording cl = None \<Longrightarrow> ok_out cl (startNewSegment_1 k cl r w)"
  using guard_startNewSegment_catch [of w cl k cl]
  by (simp add: startNewSegment_1_def ok_out_def guard_runtime passed_guard_def
      split: awaited.splits)

lemma guard_startNewSegment_2:
  "guard_inv w \<Longrightarrow> ok_out cl (startNewSegment_2 k cl r w)"
proof (cases r)
  case Rejected
  assume "guard_inv w"
  then show ?thesis
    using Rejected guard_startNewSegment_catch [of w cl k cl]
    by (simp add: startNewSegment_2_def)
next
  case (Fulfilled uri)
  assume g: "guard_inv w"
  have "guard_inv (w\<lparr>next_id := next_id w + 1,
      open_handles := insert (next_id w) (open_handles w),
      recording := Some \<lparr>rec_id = next_id w, rec_uri = uri\<rparr>,
      recordingRef := Some \<lparr>rec_id = next_id w, rec_uri = uri\<rparr>\<rparr>)"
    using g by (simp add: guard_inv_def)
  then show ?thesis
    using Fulfilled guard_after_startNewSegment [of _ cl k cl]
    by (simp add: startNewSegment_2_def Let_def)
qed

lemma guard_startRecording_pieces:
  "guard_inv w \<Longrightarrow> ok_out cl (startRecording_catch w)"
  "guard_inv w \<Longrightarrow> ok_out cl (startRecording_0 cl w)"
  "guard_inv w \<Longrightarrow> ok_out cl (startRecording_1 cl r w)"
  by (simp_all add: startRecording_catch_def startRecording_0_def startRecording_1_def
      ok_out_def guard_inv_def Alert_alert_def device_call_def passed_guard_def
      split: awaited.splits)

lemma guard_startRecording_2: "guard_inv w \<Longrightarrow> ok_out cl (startRecording_2 cl r w)"
proof -
  assume g: "guard_inv w"
  have "guard_inv (w\<lparr>isRecording := True, isRecordingRef := True\<rparr>)"
    using g by (simp add: guard_inv_def)
  then show ?thesis
    using guard_startRecording_pieces(1) [OF g, of cl] guard_startNewSegment [of _ cl]
    by (simp add: startRecording_2_def split: awaited.splits)
qed

lemma guard_handleSegmentSplit_0: "guard_inv w \<Longrightarrow> ok_out cl (handleSegmentSplit_0 cl w)"
  using guard_saveCurrentSegment [of w cl SplitSaveCaller cl]
  by (simp add: handleSegmentSplit_0_def ok_out_def)

lemma guard_handleSegmentSplit_2: "guard_inv w \<Longrightarrow> ok_out cl (handleSegmentSplit_2 cl w)"
  using guard_startNewSegment [of w cl SplitCaller]
  by (simp add: handleSegmentSplit_2_def ok_out_def)

lemma guard_playSegment:
  "guard_inv w \<Longrightarrow> ok_out cl (playSegment_0 cl seg w)"
  "guard_inv w \<Longrightarrow> ok_out cl (playSegment_1 cl seg r w)"
  "guard_inv w \<Longrightarrow> ok_out cl (playSegment_2 cl seg r w)"
  by (simp_all add: playSegment_0_def playSegment_1_def playSegment_2_def playSegment_catch_def
      ok_out_def guard_inv_def Alert_alert_def device_call_def passed_guard_def Let_def
      split: awaited.splits option.splits)

lemma guard_resume:
  assumes "guard_inv w" and "passed_guard cl p" and "resume cl p r w = Some out"
  shows "ok_out cl out"
  using assms
  by (cases "(cl, p, r, w)" rule: resume.cases)
     (auto simp: guard_startRecording_pieces guard_startRecording_2 guard_startNewSegment_1
       guard_startNewSegment_2 guard_saveCurrentSegment_1 guard_saveCurrentSegment_2
       guard_saveCurrentSegment_3 guard_stopRecording_2 guard_handleSegmentSplit_2
       guard_playSegment passed_guard_def)

lemma guard_handle_event:
  assumes "guard_inv w"
  shows "guard_inv (handle_event w e)"
proof (cases e)
  case PressRecord
  then show ?thesis
    using assms
    by (simp add: handle_event_def handleRecordButtonPress_def guard_stopRecording
        startRecording_def guard_spawn guard_startRecording_pieces)
next
  case (PressSegment i)
  then show ?thesis
    using assms by (simp add: handle_event_def playSegment_def guard_spawn guard_playSegment)
next
  case (Fire i)
  have tick: "guard_inv (second_tick w)"
    using assms by (simp add: second_tick_def guard_inv_def)
  show ?thesis
    using assms Fire tick
    by (simp add: handle_event_def handleSegmentSplit_def guard_spawn
        guard_handleSegmentSplit_0 split: option.splits timer.splits)
next
  case (Resume i r)
  show ?thesis
  proof (cases "tasks w i")
    case None
    then show ?thesis
      using assms Resume by (simp add: handle_event_def)
  next
    case (Some a)
    obtain cl p where a: "a = (cl, p)"
      by (cases a)
    have pg: "passed_guard cl p"
      using assms Some a by (auto simp: guard_inv_def)
    have g': "guard_inv (w\<lparr>tasks := (tasks w)(i := None)\<rparr>)"
      using assms by (auto simp: guard_inv_def)
    show ?thesis
    proof (cases "resume cl p r (w\<lparr>tasks := (tasks w)(i := None)\<rparr>)")
      case None
      then show ?thesis
        using assms Resume Some a by (simp add: handle_event_def)
    next
      case out: (Some out)
      have "ok_out cl out"
        using guard_resume [OF g' pg out] .
      then show ?thesis
        using Resume Some a out
        by (cases out) (auto simp: handle_event_def ok_out_def guard_inv_def split: option.splits)
    qed
  qed
next
  case (DidJustFinish s)
  then show ?thesis
    using assms by (simp add: handle_event_def on_didJustFinish_def guard_inv_def device_call_def)
next
  case (ClockAdvance d)
  then show ?thesis
    using assms by (simp add: handle_event_def guard_inv_def)
qed

lemma guard_step: "guard_inv w \<Longrightarrow> guard_inv (step w e)"
  using guard_handle_event [of w e]
  by (simp add: step_def commit_render_def effect_cleanup_eq guard_inv_def)

lemma guard_exec: "guard_inv w \<Longrightarrow> guard_inv (exec es w)"
  unfolding exec_def by (induction es arbitrary: w) (simp_all add: guard_step)

lemma guard_init: "guard_inv (init_world dir)"
  by (simp add: guard_inv_def init_world_def)

subsection \<open>One open recording while calls do not overlap\<close>

lemma quiet_one_call: "quiet w \<Longrightarrow> one_call w"
  by (simp add: one_call_def)

lemma one_callI: "tasks w = [t \<mapsto> (cl, p)] \<Longrightarrow> task_ok w p \<Longrightarrow> one_call w"
  unfolding one_call_def by blast

lemma task_ok_subset:
  assumes "task_ok w p" and "open_handles w' \<subseteq> open_handles w"
    and "recordingRef w' = recordingRef w"
  shows "task_ok w' p"
  using assms unfolding task_ok_def ref_ids_def by (cases "being_stopped p") auto

lemma task_ok_quiet:
  assumes "tasks w = Map.empty" and "task_ok w p" and "being_stopped p = None"
  shows "quiet w"
  using assms by (simp add: quiet_def task_ok_def)

lemma quiet_task_ok:
  assumes "quiet w" and "being_stopped p = None" and "\<not> is_opening p"
  shows "task_ok w p"
  using assms by (simp add: quiet_def task_ok_def)

lemma task_ok_single: "task_ok w p \<Longrightarrow> \<exists>x. open_handles w \<subseteq> {x}"
  unfolding task_ok_def ref_ids_def
  by (cases "being_stopped p"; cases "recordingRef w") auto

lemma quiet_single: "quiet w \<Longrightarrow> \<exists>x. open_handles w \<subseteq> {x}"
  unfolding quiet_def ref_ids_def by (cases "recordingRef w") auto

lemma one_call_card: "one_call w \<Longrightarrow> card (open_handles w) \<le> 1"
proof -
  assume "one_call w"
  then have "\<exists>x. open_handles w \<subseteq> {x}"
    unfolding one_call_def using task_ok_single quiet_single by blast
  then obtain x where "open_handles w \<subseteq> {x}" ..
  then have "card (open_handles w) \<le> card {x}"
    by (intro card_mono) simp_all
  then show ?thesis
    by simp
qed

lemma quiet_fields:
  assumes "quiet w" and "tasks w' = tasks w" and "open_handles w' \<subseteq> open_handles w"
    and "recordingRef w' = recordingRef w"
  shows "quiet w'"
  using assms unfolding quiet_def ref_ids_def by auto

lemma one_call_fields:
  assumes "one_call w" and "tasks w' = tasks w" and "open_handles w' \<subseteq> open_handles w"
    and "recordingRef w' = recordingRef w"
  shows "one_call w'"
  using assms(1) unfolding one_call_def
proof
  assume "quiet w"
  then have "quiet w'"
    using assms(2,3,4) by (rule quiet_fields)
  then show "quiet w' \<or> (\<exists>t cl p. tasks w' = [t \<mapsto> (cl, p)] \<and> task_ok w' p)" ..
next
  assume "\<exists>t cl p. tasks w = [t \<mapsto> (cl, p)] \<and> task_ok w p"
  then obtain t cl p where t: "tasks w = [t \<mapsto> (cl, p)]" and ok: "task_ok w p"
    by blast
  have "task_ok w' p"
    using ok assms(3,4) by (rule task_ok_subset)
  then show "quiet w' \<or> (\<exists>t cl p. tasks w' = [t \<mapsto> (cl, p)] \<and> task_ok w' p)"
    using t assms(2) by auto
qed

lemma ok_piece_None: "ok_piece (w, None) = one_call w"
  by (simp add: ok_piece_def)

lemma ok_piece_Some: "ok_piece (w, Some p) = (tasks w = Map.empty \<and> task_ok w p)"
  by (simp add: ok_piece_def)

lemma one_call_spawn:
  assumes "ok_piece out"
  shows "one_call (spawn cl out)"
proof (cases out)
  case (Pair w po)
  show ?thesis
  proof (cases po)
    case None
    then show ?thesis
      using assms Pair by (simp add: ok_piece_None spawn_def)
  next
    case (Some p)
    then have e: "tasks w = Map.empty" and ok: "task_ok w p"
      using assms Pair by (simp_all add: ok_piece_Some)
    define w' where
      "w' = w\<lparr>tasks := (tasks w)(next_id w \<mapsto> (cl, p)), next_id := next_id w + 1\<rparr>"
    have "task_ok w' p"
      using ok by (rule task_ok_subset) (simp_all add: w'_def)
    moreover have "tasks w' = [next_id w \<mapsto> (cl, p)]"
      using e by (simp add: w'_def)
    ultimately have "one_call w'"
      by (intro one_callI)
    then show ?thesis
      using Pair Some by (simp add: spawn_def w'_def)
  qed
qed

lemma ok_stopRecording_2: "quiet w \<Longrightarrow> ok_piece (stopRecording_2 fs r w)"
proof -
  assume q: "quiet w"
  have "quiet ((Alert_alert (StopSummary (length fs)) w)\<lparr>segmentCountRef := 0\<rparr>)"
    using q by (rule quiet_fields) (simp_all add: Alert_alert_def)
  then show ?thesis
    using q by (cases r) (simp_all add: stopRecording_2_def ok_piece_None quiet_one_call)
qed

lemma ok_stopRecording_1: "quiet w \<Longrightarrow> ok_piece (stopRecording_1 fs v w)"
proof -
  assume q: "quiet w"
  define fs' where "fs' = (case v of None \<Rightarrow> fs | Some s \<Rightarrow> fs @ [s])"
  define w1 where
    "w1 = device_call (SetAudioMode False) (w\<lparr>recordingSegments := fs', recording := None\<rparr>)"
  have "quiet w1"
    using q by (rule quiet_fields) (simp_all add: w1_def device_call_def)
  then have "tasks w1 = Map.empty \<and> task_ok w1 (StopRecording_audioMode fs')"
    by (simp add: quiet_task_ok) (simp add: quiet_def)
  then show ?thesis
    by (simp add: stopRecording_1_def Let_def ok_piece_Some w1_def fs'_def)
qed

lemma ok_handleSegmentSplit_1: "quiet w \<Longrightarrow> ok_piece (handleSegmentSplit_1 v w)"
proof -
  assume q: "quiet w"
  define w1 where "w1 = (case v of None \<Rightarrow> w
    | Some s \<Rightarrow> w\<lparr>recordingSegments := recordingSegments w @ [s]\<rparr>)\<lparr>segmentProgress := 0\<rparr>"
  have "quiet w1"
    using q by (rule quiet_fields) (simp_all add: w1_def split: option.splits)
  then have "tasks w1 = Map.empty \<and> task_ok w1 Split_delay"
    by (simp add: quiet_task_ok) (simp add: quiet_def)
  then show ?thesis
    by (simp add: handleSegmentSplit_1_def Let_def ok_piece_Some w1_def)
qed

lemma ok_after_save: "quiet w \<Longrightarrow> ok_piece (after_save k v w)"
  by (cases k) (simp_all add: after_save_def ok_stopRecording_1 ok_handleSegmentSplit_1)

lemma ok_saveCurrentSegment: "quiet w \<Longrightarrow> ok_piece (saveCurrentSegment k cl w)"
proof -
  assume q: "quiet w"
  show ?thesis
  proof (cases "case recordingRef w of Some r \<Rightarrow> Some r | None \<Rightarrow> c_recording cl")
    case None
    then show ?thesis
      using ok_after_save [OF q, of k None] by (simp add: saveCurrentSegment_def)
  next
    case (Some cur)
    define w1 where "w1 = device_call (StopAndUnload (rec_id cur))
      (w\<lparr>recording := None, recordingRef := None\<rparr>)"
    have "open_handles w \<subseteq> {rec_id cur}"
      using q Some by (cases "recordingRef w") (auto simp: quiet_def ref_ids_def)
    then have "tasks w1 = Map.empty \<and> task_ok w1 (Save_stop k cur)"
      using q by (simp add: w1_def task_ok_def quiet_def device_call_def)
    then show ?thesis
      using Some by (simp add: saveCurrentSegment_def ok_piece_Some w1_def)
  qed
qed

lemma ok_saveCurrentSegment_1:
  assumes "tasks w = Map.empty" and "task_ok w (Save_stop k' cur)"
  shows "ok_piece (saveCurrentSegment_1 k cur r w)"
proof -
  define w1 where "w1 = w\<lparr>open_handles := open_handles w - {rec_id cur}\<rparr>"
  have q: "quiet w1"
    using assms by (auto simp: quiet_def task_ok_def ref_ids_def w1_def)
  show ?thesis
  proof (cases r)
    case Rejected
    then show ?thesis
      using ok_after_save [OF q, of k None]
      by (simp add: saveCurrentSegment_1_def Let_def w1_def)
  next
    case (Fulfilled x)
    have "quiet (device_call (SetAudioMode False) w1)"
      using q by (rule quiet_fields) (simp_all add: device_call_def)
    then have "tasks (device_call (SetAudioMode False) w1) = Map.empty
        \<and> task_ok (device_call (SetAudioMode False) w1) (Save_audioMode k cur)"
      by (simp add: quiet_task_ok) (simp add: quiet_def)
    then show ?thesis
      using Fulfilled by (simp add: saveCurrentSegment_1_def Let_def ok_piece_Some w1_def)
  qed
qed

lemma ok_saveCurrentSegment_2: "quiet w \<Longrightarrow> ok_piece (saveCurrentSegment_2 k cur r w)"
proof -
  assume q: "quiet w"
  have m: "ok_piece (device_call c w, Some (Save_move k t f u))" for c t f u
  proof -
    have "quiet (device_call c w)"
      using q by (rule quiet_fields) (simp_all add: device_call_def)
    then show ?thesis
      by (simp add: ok_piece_Some quiet_task_ok) (simp add: quiet_def)
  qed
  show ?thesis
    using ok_after_save [OF q, of k None] m
    by (simp add: saveCurrentSegment_2_def Let_def split: awaited.splits option.splits)
qed

lemma ok_saveCurrentSegment_3: "quiet w \<Longrightarrow> ok_piece (saveCurrentSegment_3 k t f u r w)"
proof -
  assume q: "quiet w"
  have q1: "quiet (w\<lparr>segmentCountRef := segmentCountRef w + 1\<rparr>)"
    using q by (rule quiet_fields) simp_all
  show ?thesis
    using ok_after_save [OF q, of k None] ok_after_save [OF q1, of k]
    by (simp add: saveCurrentSegment_3_def Let_def split: awaited.splits)
qed

lemma ok_stopRecording_0: "quiet w \<Longrightarrow> ok_piece (stopRecording_0 cl w)"
proof -
  assume q: "quiet w"
  define w4 where "w4 = (clear_if_set (timerRef w) (clear_if_set (intervalRef w)
      (w\<lparr>isRecording := False, isRecordingRef := False\<rparr>)))
        \<lparr>intervalRef := None, timerRef := None, recordingTime := 0, segmentProgress := 0\<rparr>"
  have q4: "quiet w4"
    using q by (rule quiet_fields) (simp_all add: w4_def clear_if_set_eq)
  have q5: "quiet (device_call (SetAudioMode False) w4)"
    using q4 by (rule quiet_fields) (simp_all add: device_call_def)
  have e: "stopRecording_0 cl w =
      (if c_recording cl \<noteq> None
       then saveCurrentSegment (StopRecordingCaller (c_recordingSegments cl)) cl w4
       else (device_call (SetAudioMode False) w4,
             Some (StopRecording_audioMode (c_recordingSegments cl))))"
    by (simp add: stopRecording_0_def w4_def Let_def clear_if_set_eq)
  have "ok_piece (device_call (SetAudioMode False) w4,
             Some (StopRecording_audioMode (c_recordingSegments cl)))"
    using q5 by (simp add: ok_piece_Some quiet_task_ok) (simp add: quiet_def)
  then show ?thesis
    unfolding e using ok_saveCurrentSegment [OF q4] by simp
qed

lemma one_call_stopRecording: "quiet w \<Longrightarrow> one_call (stopRecording cl w)"
  by (simp add: stopRecording_def one_call_spawn ok_stopRecording_0)

lemma one_call_startRecording_3: "one_call w \<Longrightarrow> ok_piece (startRecording_3 cl w)"
proof -
  assume o: "one_call w"
  define w' where "w' = fst (startRecording_3 cl w)"
  have e: "startRecording_3 cl w = (w', None)"
    by (simp add: w'_def startRecording_3_def setInterval_def)
  have "one_call w'"
    using o by (rule one_call_fields)
      (simp_all add: w'_def startRecording_3_def setInterval_def)
  then show ?thesis
    by (simp add: e ok_piece_None)
qed

lemma one_call_after_startNewSegment:
  "one_call w \<Longrightarrow> ok_piece (after_startNewSegment k cl w)"
  using one_call_startRecording_3 [of w cl]
  by (cases k) (simp_all add: after_startNewSegment_def ok_piece_None)

lemma ok_startNewSegment_catch: "quiet w \<Longrightarrow> ok_piece (startNewSegment_catch k cl w)"
proof -
  assume q: "quiet w"
  have "quiet (Alert_alert SegmentStartFailure w)"
    using q by (rule quiet_fields) (simp_all add: Alert_alert_def)
  then show ?thesis
    by (simp add: startNewSegment_catch_def one_call_after_startNewSegment
        one_call_stopRecording)
qed

lemma ok_startNewSegment: "quiet w \<Longrightarrow> ok_piece (startNewSegment k cl w)"
proof -
  assume q: "quiet w"
  show ?thesis
  proof (cases "c_recording cl \<noteq> None \<or> recordingRef w \<noteq> None")
    case True
    then show ?thesis
      using one_call_after_startNewSegment [OF quiet_one_call [OF q], of k cl]
      by (simp add: startNewSegment_def)
  next
    case False
    then have "tasks (device_call (SetAudioMode True) w) = Map.empty
        \<and> task_ok (device_call (SetAudioMode True) w) (StartNewSegment_audioMode k)"
      using q by (simp add: task_ok_def quiet_def device_call_def ref_ids_def)
    then show ?thesis
      using False by (simp add: startNewSegment_def ok_piece_Some)
  qed
qed

lemma opening_quiet:
  assumes "tasks w = Map.empty" and "task_ok w p" and "is_opening p"
  shows "quiet w" and "recordingRef w = None" and "open_handles w = {}"
proof -
  have s: "being_stopped p = None"
    using assms(3) by (cases p) simp_all
  show "quiet w"
    using assms(1,2) s by (rule task_ok_quiet)
  show r: "recordingRef w = None"
    using assms(2,3) s by (simp add: task_ok_def)
  show "open_handles w = {}"
    using assms(2) s r by (simp add: task_ok_def ref_ids_def)
qed

lemma ok_startNewSegment_1:
  assumes "tasks w = Map.empty" and "task_ok w (StartNewSegment_audioMode k)"
  shows "ok_piece (startNewSegment_1 k cl r w)"
proof -
  note o = opening_quiet [OF assms, simplified]
  show ?thesis
  proof (cases r)
    case Rejected
    then show ?thesis
      using ok_startNewSegment_catch [OF o(1), of k cl] by (simp add: startNewSegment_1_def)
  next
    case (Fulfilled x)
    have "tasks (device_call CreateRecording w) = Map.empty
        \<and> task_ok (device_call CreateRecording w) (StartNewSegment_create k)"
      using o assms(1) by (simp add: task_ok_def device_call_def)
    then show ?thesis
      using Fulfilled by (simp add: startNewSegment_1_def ok_piece_Some)
  qed
qed

lemma ok_startNewSegment_2:
  assumes "tasks w = Map.empty" and "task_ok w (StartNewSegment_create k)"
  shows "ok_piece (startNewSegment_2 k cl r w)"
proof -
  note o = opening_quiet [OF assms, simplified]
  show ?thesis
  proof (cases r)
    case Rejected
    then show ?thesis
      using ok_startNewSegment_catch [OF o(1), of k cl] by (simp add: startNewSegment_2_def)
  next
    case (Fulfilled uri)
    have "quiet (w\<lparr>next_id := next_id w + 1,
        open_handles := insert (next_id w) (open_handles w),
        recording := Some \<lparr>rec_id = next_id w, rec_uri = uri\<rparr>,
        recordingRef := Some \<lparr>rec_id = next_id w, rec_uri = uri\<rparr>\<rparr>)"
      using o assms(1) by (simp add: quiet_def ref_ids_def)
    then show ?thesis
      using Fulfilled one_call_after_startNewSegment [OF quiet_one_call, of _ k cl]
      by (simp add: startNewSegment_2_def Let_def)
  qed
qed

lemma ok_handleSegmentSplit_0: "quiet w \<Longrightarrow> ok_piece (handleSegmentSplit_0 cl w)"
  by (simp add: handleSegmentSplit_0_def ok_piece_None quiet_one_call ok_saveCurrentSegment)

lemma ok_handleSegmentSplit_2: "quiet w \<Longrightarrow> ok_piece (handleSegmentSplit_2 cl w)"
  by (simp add: handleSegmentSplit_2_def ok_piece_None quiet_one_call ok_startNewSegment)

lemma ok_startRecording_catch: "quiet w \<Longrightarrow> ok_piece (startRecording_catch w)"
proof -
  assume q: "quiet w"
  have "quiet ((Alert_alert DeviceStartFailure w)\<lparr>isRecording := False, isRecordingRef := False\<rparr>)"
    using q by (rule quiet_fields) (simp_all add: Alert_alert_def)
  then show ?thesis
    by (simp add: startRecording_catch_def ok_piece_None quiet_one_call)
qed

lemma quiet_device_call: "quiet w \<Longrightarrow> quiet (device_call c w)"
  by (erule quiet_fields) (simp_all add: device_call_def)

lemma quiet_Alert_alert: "quiet w \<Longrightarrow> quiet (Alert_alert a w)"
  by (erule quiet_fields) (simp_all add: Alert_alert_def)

lemma quiet_ok_Some:
  assumes "quiet w" and "being_stopped p = None" and "\<not> is_opening p"
  shows "ok_piece (w, Some p)"
proof -
  have "task_ok w p"
    using assms by (rule quiet_task_ok)
  moreover have "tasks w = Map.empty"
    using assms(1) by (simp add: quiet_def)
  ultimately show ?thesis
    by (simp add: ok_piece_Some)
qed

lemma ok_startRecording_0: "quiet w \<Longrightarrow> ok_piece (startRecording_0 cl w)"
  by (simp add: startRecording_0_def quiet_ok_Some quiet_device_call)

lemma ok_startRecording_1: "quiet w \<Longrightarrow> ok_piece (startRecording_1 cl r w)"
  by (cases r)
    (simp_all add: startRecording_1_def quiet_ok_Some quiet_device_call ok_piece_None
      quiet_one_call quiet_Alert_alert ok_startRecording_catch)

lemma ok_startRecording_2: "quiet w \<Longrightarrow> ok_piece (startRecording_2 cl r w)"
proof -
  assume q: "quiet w"
  have "quiet (w\<lparr>isRecording := True, isRecordingRef := True\<rparr>)"
    using q by (rule quiet_fields) simp_all
  then show ?thesis
    using q by (cases r) (simp_all add: startRecording_2_def ok_startNewSegment
        ok_startRecording_catch)
qed

lemma ok_playSegment_catch: "quiet w \<Longrightarrow> ok_piece (playSegment_catch w)"
  by (simp add: playSegment_catch_def ok_piece_None quiet_one_call quiet_Alert_alert)

lemma ok_playSegment_0: "quiet w \<Longrightarrow> ok_piece (playSegment_0 cl seg w)"
  by (cases "c_soundObject cl") (simp_all add: playSegment_0_def quiet_ok_Some quiet_device_call)

lemma ok_playSegment_1: "quiet w \<Longrightarrow> ok_piece (playSegment_1 cl seg r w)"
proof -
  assume q: "quiet w"
  define w1 where "w1 = w\<lparr>loaded_sounds := loaded_sounds w - set_option (c_soundObject cl),
    soundObject := None\<rparr>"
  have q1: "quiet w1"
    using q by (rule quiet_fields) (simp_all add: w1_def)
  have "quiet (w1\<lparr>playingSegmentId := None\<rparr>)"
    using q1 by (rule quiet_fields) simp_all
  then show ?thesis
    using q q1 by (cases r)
      (simp_all add: playSegment_1_def Let_def ok_playSegment_catch ok_piece_None
        quiet_one_call quiet_ok_Some quiet_device_call w1_def)
qed

lemma ok_playSegment_2: "quiet w \<Longrightarrow> ok_piece (playSegment_2 cl seg r w)"
proof (cases r)
  case Rejected
  assume "quiet w"
  then show ?thesis
    using Rejected by (simp add: playSegment_2_def ok_playSegment_catch)
next
  case (Fulfilled x)
  define w' where "w' = fst (playSegment_2 cl seg r w)"
  assume "quiet w"
  then have "quiet w'"
    by (rule quiet_fields) (simp_all add: w'_def Fulfilled playSegment_2_def Let_def)
  moreover have "playSegment_2 cl seg r w = (w', None)"
    by (simp add: w'_def Fulfilled playSegment_2_def Let_def)
  ultimately show ?thesis
    by (simp add: ok_piece_None quiet_one_call)
qed

lemma awaited_value_cases:
  obtains "r = Rejected" | "r = Fulfilled Undefined" | s where "r = Fulfilled (PermissionResponse s)"
  | u where "r = Fulfilled (NewRecording u)" | "r = Fulfilled NewSound"
proof (cases r)
  case (Fulfilled v)
  then show ?thesis
    using that by (cases v) simp_all
next
  case Rejected
  then show ?thesis
    using that by simp
qed

lemma ok_resume:
  assumes "tasks w = Map.empty" and "task_ok w p" and "resume cl p r w = Some out"
  shows "ok_piece out"
proof (cases p)
  case StartRecording_permission
  then have "quiet w"
    using assms(1,2) by (intro task_ok_quiet [of w p]) simp_all
  then show ?thesis
    using assms(3) StartRecording_permission
    by (cases r rule: awaited_value_cases) (auto simp: ok_startRecording_1)
next
  case StartRecording_audioMode
  then have "quiet w"
    using assms(1,2) by (intro task_ok_quiet [of w p]) simp_all
  then show ?thesis
    using assms(3) StartRecording_audioMode
    by (cases r rule: awaited_value_cases) (auto simp: ok_startRecording_2)
next
  case (StartNewSegment_audioMode k)
  then show ?thesis
    using assms ok_startNewSegment_1 [of w k cl]
    by (cases r rule: awaited_value_cases) auto
next
  case (StartNewSegment_create k)
  then show ?thesis
    using assms ok_startNewSegment_2 [of w k cl]
    by (cases r rule: awaited_value_cases) auto
next
  case (Save_stop k cur)
  then show ?thesis
    using assms ok_saveCurrentSegment_1 [of w k cur k]
    by (cases r rule: awaited_value_cases) auto
next
  case (Save_audioMode k cur)
  then have "quiet w"
    using assms(1,2) by (intro task_ok_quiet [of w p]) simp_all
  then show ?thesis
    using assms(3) Save_audioMode
    by (cases r rule: awaited_value_cases) (auto simp: ok_saveCurrentSegment_2)
next
  case (Save_move k t f u)
  then have "quiet w"
    using assms(1,2) by (intro task_ok_quiet [of w p]) simp_all
  then show ?thesis
    using assms(3) Save_move
    by (cases r rule: awaited_value_cases) (auto simp: ok_saveCurrentSegment_3)
next
  case (StopRecording_audioMode fs)
  then have "quiet w"
    using assms(1,2) by (intro task_ok_quiet [of w p]) simp_all
  then show ?thesis
    using assms(3) StopRecording_audioMode
    by (cases r rule: awaited_value_cases) (auto simp: ok_stopRecording_2)
next
  case Split_delay
  then have "quiet w"
    using assms(1,2) by (intro task_ok_quiet [of w p]) simp_all
  then show ?thesis
    using assms(3) Split_delay
    by (cases r rule: awaited_value_cases) (auto simp: ok_handleSegmentSplit_2)
next
  case (PlaySegment_unload seg)
  then have "quiet w"
    using assms(1,2) by (intro task_ok_quiet [of w p]) simp_all
  then show ?thesis
    using assms(3) PlaySegment_unload
    by (cases r rule: awaited_value_cases) (auto simp: ok_playSegment_1)
next
  case (PlaySegment_create seg)
  then have "quiet w"
    using assms(1,2) by (intro task_ok_quiet [of w p]) simp_all
  then show ?thesis
    using assms(3) PlaySegment_create
    by (cases r rule: awaited_value_cases) (auto simp: ok_playSegment_2)
qed

lemma single_task:
  assumes "tasks w = [t \<mapsto> (cl', p')]" and "tasks w i = Some (cl, p)"
  shows "t = i" and "cl' = cl" and "p' = p"
proof -
  have e: "[t \<mapsto> (cl', p')] i = Some (cl, p)"
    using assms by simp
  show "t = i"
    using e by (cases "i = t") simp_all
  then show "cl' = cl" and "p' = p"
    using e by simp_all
qed

lemma one_call_quiet:
  assumes "one_call w" and "tasks w = Map.empty"
  shows "quiet w"
proof (rule ccontr)
  assume "\<not> quiet w"
  then obtain t cl p where "tasks w = [t \<mapsto> (cl, p)]"
    using assms(1) unfolding one_call_def by blast
  then have "tasks w t = Some (cl, p)"
    by simp
  then show False
    using assms(2) by simp
qed

lemma one_call_task:
  assumes "one_call w" and "tasks w i = Some (cl, p)"
  shows "tasks (w\<lparr>tasks := (tasks w)(i := None)\<rparr>) = Map.empty"
    and "task_ok (w\<lparr>tasks := (tasks w)(i := None)\<rparr>) p"
    and "tasks w = [i \<mapsto> (cl, p)]"
proof -
  have "tasks w \<noteq> Map.empty"
    using assms(2) by auto
  then have "\<not> quiet w"
    by (simp add: quiet_def)
  then obtain t cl' p' where t: "tasks w = [t \<mapsto> (cl', p')]" and ok: "task_ok w p'"
    using assms(1) unfolding one_call_def by blast
  note e = single_task [OF t assms(2)]
  show s: "tasks w = [i \<mapsto> (cl, p)]"
    using t e by simp
  show "tasks (w\<lparr>tasks := (tasks w)(i := None)\<rparr>) = Map.empty"
    by (simp add: s)
  have "task_ok w p"
    using ok e by simp
  then show "task_ok (w\<lparr>tasks := (tasks w)(i := None)\<rparr>) p"
    by (rule task_ok_subset) simp_all
qed

lemma one_call_resumed:
  assumes "ok_piece (w', po)"
  shows "one_call (case po of None \<Rightarrow> w' | Some p' \<Rightarrow> w'\<lparr>tasks := (tasks w')(i \<mapsto> (cl, p'))\<rparr>)"
proof (cases po)
  case None
  then show ?thesis
    using assms by (simp add: ok_piece_None)
next
  case (Some p')
  then have e: "tasks w' = Map.empty" and ok: "task_ok w' p'"
    using assms by (simp_all add: ok_piece_Some)
  have "task_ok (w'\<lparr>tasks := (tasks w')(i \<mapsto> (cl, p'))\<rparr>) p'"
    using ok by (rule task_ok_subset) simp_all
  moreover have "tasks (w'\<lparr>tasks := (tasks w')(i \<mapsto> (cl, p'))\<rparr>) = [i \<mapsto> (cl, p')]"
    using e by simp
  ultimately show ?thesis
    using Some by (simp add: one_callI)
qed

lemma one_call_handle_event:
  assumes "one_call w" and "starts_call w e \<longrightarrow> tasks w = Map.empty"
  shows "one_call (handle_event w e)"
proof (cases e)
  case PressRecord
  then have "quiet w"
    using assms by (simp add: starts_call_def one_call_quiet)
  then show ?thesis
    using PressRecord
    by (simp add: handle_event_def handleRecordButtonPress_def one_call_stopRecording
        startRecording_def one_call_spawn ok_startRecording_0)
next
  case (PressSegment i)
  then have "quiet w"
    using assms by (simp add: starts_call_def one_call_quiet)
  then show ?thesis
    using PressSegment assms(1)
    by (simp add: handle_event_def playSegment_def one_call_spawn ok_playSegment_0)
next
  case (Fire i)
  show ?thesis
  proof (cases "timers w i")
    case None
    then show ?thesis
      using Fire assms(1) by (simp add: handle_event_def)
  next
    case (Some tm)
    show ?thesis
    proof (cases tm)
      case SecondTimer
      have "one_call (second_tick w)"
        using assms(1) by (rule one_call_fields) (simp_all add: second_tick_def)
      then show ?thesis
        using Fire Some SecondTimer by (simp add: handle_event_def)
    next
      case (SplitTimer cl)
      then have "quiet w"
        using assms Fire Some by (simp add: starts_call_def one_call_quiet)
      then show ?thesis
        using Fire Some SplitTimer
        by (simp add: handle_event_def handleSegmentSplit_def one_call_spawn
            ok_handleSegmentSplit_0)
    qed
  qed
next
  case (Resume i r)
  show ?thesis
  proof (cases "tasks w i")
    case None
    then show ?thesis
      using Resume assms(1) by (simp add: handle_event_def)
  next
    case (Some a)
    obtain cl p where a: "a = (cl, p)"
      by (cases a)
    note t = one_call_task [OF assms(1) Some [unfolded a]]
    show ?thesis
    proof (cases "resume cl p r (w\<lparr>tasks := (tasks w)(i := None)\<rparr>)")
      case None
      then show ?thesis
        using Resume Some a assms(1) by (simp add: handle_event_def)
    next
      case (Some out)
      obtain w' po where out: "out = (w', po)"
        by (cases out)
      have "ok_piece (w', po)"
        using ok_resume [OF t(1,2) Some] out by simp
      then have "one_call (case po of None \<Rightarrow> w'
          | Some p' \<Rightarrow> w'\<lparr>tasks := (tasks w')(i \<mapsto> (cl, p'))\<rparr>)"
        by (rule one_call_resumed)
      moreover have "handle_event w e = (case po of None \<Rightarrow> w'
          | Some p' \<Rightarrow> w'\<lparr>tasks := (tasks w')(i \<mapsto> (cl, p'))\<rparr>)"
        using Resume \<open>tasks w i = Some a\<close> a Some out by (simp add: handle_event_def)
      ultimately show ?thesis
        by simp
    qed
  qed
next
  case (DidJustFinish s)
  have "one_call (on_didJustFinish s w)"
    using assms(1) by (rule one_call_fields) (simp_all add: on_didJustFinish_def device_call_def)
  then show ?thesis
    using DidJustFinish assms(1) by (simp add: handle_event_def)
next
  case (ClockAdvance d)
  have "one_call (w\<lparr>now := now w + d\<rparr>)"
    using assms(1) by (rule one_call_fields) simp_all
  then show ?thesis
    using ClockAdvance by (simp add: handle_event_def)
qed

lemma one_call_commit_render: "one_call w \<Longrightarrow> one_call (commit_render before w)"
proof -
  assume o: "one_call w"
  have "one_call (effect_cleanup old w)" for old
    using o by (rule one_call_fields) (auto simp: effect_cleanup_eq)
  then show ?thesis
    using o by (simp add: commit_render_def)
qed

lemma one_call_step:
  "one_call w \<Longrightarrow> starts_call w e \<longrightarrow> tasks w = Map.empty \<Longrightarrow> one_call (step w e)"
  by (simp add: step_def one_call_commit_render one_call_handle_event)

lemma one_call_exec: "one_call w \<Longrightarrow> sequential w es \<Longrightarrow> one_call (exec es w)"
proof (induction es arbitrary: w)
  case Nil
  then show ?case
    by (simp add: exec_def)
next
  case (Cons e es)
  have "one_call (step w e)"
    using Cons.prems by (intro one_call_step) simp_all
  then have "one_call (exec es (step w e))"
    using Cons.prems by (intro Cons.IH) simp_all
  then show ?case
    by (simp add: exec_def)
qed

lemma one_call_init: "one_call (init_world dir)"
  by (simp add: one_call_def quiet_def init_world_def)

lemma sequential_one_handle:
  "sequential (init_world dir) es \<Longrightarrow> card (open_handles (exec es (init_world dir))) \<le> 1"
  by (intro one_call_card one_call_exec one_call_init)

text \<open>The history of five seconds of recording is one of them.\<close>

lemma five_seconds_events_eq:
  "exec five_seconds_events (init_world mock_dir)
     = continuous_recording mock_uri 1 (init_world mock_dir)"
  unfolding recorded_five_seconds_eq
  by (simp add: five_seconds_events_def reopening_events_def run_defs piece_defs Let_def
      fun_eq_iff)

lemma five_seconds_events_sequential: "sequential (init_world mock_dir) five_seconds_events"
  by (simp add: five_seconds_events_def reopening_events_def starts_call_def run_defs
      piece_defs Let_def)

subsection \<open>Rotations of a session left to itself\<close>

lemma saved_segments_append:
  "saved_segments dir c (ts @ [t]) =
     saved_segments dir c ts @ [saved_segment dir (c + length ts) t]"
  by (induction ts arbitrary: c) simp_all

lemma length_saved_segments: "length (saved_segments dir c ts) = length ts"
  by (induction ts arbitrary: c) simp_all

lemma timestamp_saved_segments: "map timestamp (saved_segments dir c ts) = ts"
  by (induction ts arbitrary: c) (simp_all add: saved_segment_def)

lemma saved_segments_map:
  "saved_segments dir c ts = map (\<lambda>k. saved_segment dir (c + k) (ts ! k)) [0..<length ts]"
proof (induction ts rule: rev_induct)
  case Nil
  show ?case
    by simp
next
  case (snoc t ts)
  have "map (\<lambda>k. saved_segment dir (c + k) ((ts @ [t]) ! k)) [0..<length ts] =
        map (\<lambda>k. saved_segment dir (c + k) (ts ! k)) [0..<length ts]"
    by (rule map_cong) (simp_all add: nth_append)
  then show ?case
    using snoc by (simp add: saved_segments_append)
qed

lemma distinct_saved_segments:
  "distinct (map seg_id (saved_segments dir c ts))"
  "distinct (map fileName (saved_segments dir c ts))"
  using distinct_saved_ids [of dir c "\<lambda>k. ts ! k" "length ts"]
    distinct_saved_names [of dir c "\<lambda>k. ts ! k" "length ts"]
  by (simp_all add: saved_segments_map comp_def)

lemma producedI:
  assumes "documentDirectory w = dir" and "segmentCountRef w = c + length ts"
    and "recordingSegments w = old @ saved_segments dir c ts"
  shows "produced dir c old (length ts) w"
  using assms by (simp add: produced_def length_saved_segments timestamp_saved_segments)

lemma producedE:
  assumes "produced dir c old m w"
  obtains ts where "length ts = m" and "recordingSegments w = old @ saved_segments dir c ts"
    and "documentDirectory w = dir" and "segmentCountRef w = c + m"
proof -
  define ts where "ts = map timestamp (drop (length old) (recordingSegments w))"
  have "length ts = m"
    using assms by (simp add: ts_def produced_def)
  moreover have "recordingSegments w = old @ saved_segments dir c ts"
    using assms unfolding ts_def produced_def by blast
  ultimately show ?thesis
    using assms that by (simp add: produced_def)
qed

lemma produced_fields:
  assumes "produced dir c old m w" and "documentDirectory w' = documentDirectory w"
    and "segmentCountRef w' = segmentCountRef w"
    and "recordingSegments w' = recordingSegments w"
  shows "produced dir c old m w'"
  using assms by (simp add: produced_def)

lemma produced_append:
  assumes "produced dir c old m w" and "documentDirectory w' = documentDirectory w"
    and "segmentCountRef w' = Suc (segmentCountRef w)"
    and "recordingSegments w' = recordingSegments w @ [saved_segment dir (c + m) t]"
  shows "produced dir c old (Suc m) w'"
proof -
  from assms(1) obtain ts where ts: "length ts = m"
    "recordingSegments w = old @ saved_segments dir c ts"
    "documentDirectory w = dir" "segmentCountRef w = c + m"
    by (rule producedE)
  have "produced dir c old (length (ts @ [t])) w'"
    using assms(2,3,4) ts by (intro producedI) (simp_all add: saved_segments_append)
  then show ?thesis
    using ts(1) by simp
qed

lemma session_fields:
  assumes "session cl w" and "isRecording w' = isRecording w"
    and "isRecordingRef w' = isRecordingRef w" and "timerRef w' = timerRef w"
    and "intervalRef w' = intervalRef w" and "timers w' = timers w"
  shows "session cl w'"
  using assms by (simp add: session_def split: option.splits)

lemma sessionD:
  assumes "session cl w"
  obtains i j where "isRecording w" "isRecordingRef w" "c_recording cl = None"
    "timerRef w = Some i" "timers w i = Some SecondTimer"
    "intervalRef w = Some j" "timers w j = Some (SplitTimer cl)" "i \<noteq> j"
proof -
  from assms obtain i j where h: "timerRef w = Some i" "timers w i = Some SecondTimer"
    "intervalRef w = Some j" "timers w j = Some (SplitTimer cl)"
    unfolding session_def by (auto split: option.splits)
  then have "i \<noteq> j"
    by auto
  then show ?thesis
    using assms h that by (simp add: session_def)
qed

lemma rotating_idle:
  assumes "session cl w" and "recordingRef w = Some r" and "tasks w = Map.empty"
    and "good_uri r" and "produced dir c old m w"
  shows "rotating cl dir c old m w"
  using assms by (simp add: rotating_def)

lemma rotating_pending:
  assumes "session cl w" and "recordingRef w = None" and "tasks w = [t \<mapsto> (cl, p)]"
    and "pending dir c old m w p"
  shows "rotating cl dir c old m w"
  using assms unfolding rotating_def by auto

lemma rotating_fields:
  assumes "rotating cl dir c old m w" and "isRecording w' = isRecording w"
    and "isRecordingRef w' = isRecordingRef w" and "timerRef w' = timerRef w"
    and "intervalRef w' = intervalRef w" and "timers w' = timers w"
    and "recordingRef w' = recordingRef w" and "tasks w' = tasks w"
    and "documentDirectory w' = documentDirectory w"
    and "segmentCountRef w' = segmentCountRef w"
    and "recordingSegments w' = recordingSegments w"
  shows "rotating cl dir c old m w'"
proof -
  have p: "produced dir c old k w' = produced dir c old k w" for k
    using assms(9,10,11) by (simp add: produced_def)
  have "pending dir c old m w' p = pending dir c old m w p" for p
    by (cases p) (simp_all add: p)
  then show ?thesis
    using assms(1) session_fields [OF _ assms(2,3,4,5,6), of cl]
    by (cases "recordingRef w") (simp_all add: rotating_def assms(7,8) p)
qed

lemma rotating_clock:
  assumes "rotating cl dir c old m w"
  shows "rotating cl dir c old m (step w (ClockAdvance d))"
  using assms by (rule rotating_fields) (simp_all add: piece_defs)

lemma rotating_second_tick:
  assumes "rotating cl dir c old m w" and "timers w i = Some SecondTimer"
  shows "rotating cl dir c old m (step w (Fire i))"
  using assms(1) by (rule rotating_fields) (simp_all add: piece_defs assms(2))

lemma rotating_rotation_tick:
  assumes "session cl w" and "recordingRef w = Some r" and "tasks w = Map.empty"
    and "good_uri r" and "produced dir c old m w" and "timers w j = Some (SplitTimer cl)"
  shows "rotating cl dir c old (Suc m) (step w (Fire j))"
proof -
  define w' where "w' = step w (Fire j)"
  have i: "isRecordingRef w"
    using assms(1) by (simp add: session_def)
  have f: "isRecording w' = isRecording w" "isRecordingRef w' = isRecordingRef w"
    "timerRef w' = timerRef w" "intervalRef w' = intervalRef w" "timers w' = timers w"
    "documentDirectory w' = documentDirectory w" "segmentCountRef w' = segmentCountRef w"
    "recordingSegments w' = recordingSegments w"
    unfolding w'_def by (simp_all add: piece_defs Let_def assms(2,6) i)
  have g: "recordingRef w' = None"
    "tasks w' = [next_id w \<mapsto> (cl, Save_stop SplitSaveCaller r)]"
    unfolding w'_def by (simp_all add: piece_defs Let_def assms(2,3,6) i)
  have s: "session cl w'"
    using assms(1) f(1-5) by (rule session_fields)
  have q: "produced dir c old m w'"
    using assms(5) f(6-8) by (rule produced_fields)
  have "rotating cl dir c old (Suc m) w'"
    using rotating_pending [OF s g] q assms(4) by simp
  then show ?thesis
    by (simp add: w'_def)
qed

lemma rotating_Save_stop:
  assumes "session cl w" and "recordingRef w = None"
    and "tasks w = [t \<mapsto> (cl, Save_stop SplitSaveCaller cur)]"
    and "pending dir c old m w (Save_stop SplitSaveCaller cur)"
  shows "rotating cl dir c old m (step w (Resume t (Fulfilled Undefined)))"
proof -
  define w' where "w' = step w (Resume t (Fulfilled Undefined))"
  have f: "isRecording w' = isRecording w" "isRecordingRef w' = isRecordingRef w"
    "timerRef w' = timerRef w" "intervalRef w' = intervalRef w" "timers w' = timers w"
    "documentDirectory w' = documentDirectory w" "segmentCountRef w' = segmentCountRef w"
    "recordingSegments w' = recordingSegments w"
    unfolding w'_def by (simp_all add: piece_defs Let_def assms(3))
  have g: "recordingRef w' = None"
    "tasks w' = [t \<mapsto> (cl, Save_audioMode SplitSaveCaller cur)]"
    unfolding w'_def by (simp_all add: piece_defs Let_def assms(2,3))
  have s: "session cl w'"
    using assms(1) f(1-5) by (rule session_fields)
  have q: "produced dir c old (m - 1) w'"
    using assms(4) produced_fields [OF _ f(6-8)] by simp
  have "rotating cl dir c old m w'"
    using rotating_pending [OF s g] q assms(4) by simp
  then show ?thesis
    by (simp add: w'_def)
qed

lemma rotating_Save_audioMode:
  assumes "session cl w" and "recordingRef w = None"
    and "tasks w = [t \<mapsto> (cl, Save_audioMode SplitSaveCaller cur)]"
    and "pending dir c old m w (Save_audioMode SplitSaveCaller cur)"
  shows "rotating cl dir c old m (step w (Resume t (Fulfilled Undefined)))"
proof -
  define w' where "w' = step w (Resume t (Fulfilled Undefined))"
  obtain u where u: "rec_uri cur = Some u" "u \<noteq> []"
    using assms(4) by (auto simp: good_uri_def split: option.splits)
  have p: "produced dir c old (m - 1) w"
    using assms(4) by simp
  then have d: "documentDirectory w = dir" "segmentCountRef w = c + (m - 1)"
    by (simp_all add: produced_def)
  have f: "isRecording w' = isRecording w" "isRecordingRef w' = isRecordingRef w"
    "timerRef w' = timerRef w" "intervalRef w' = intervalRef w" "timers w' = timers w"
    "documentDirectory w' = documentDirectory w" "segmentCountRef w' = segmentCountRef w"
    "recordingSegments w' = recordingSegments w"
    unfolding w'_def by (simp_all add: piece_defs Let_def assms(3) u)
  have g: "recordingRef w' = None"
    "tasks w' = [t \<mapsto> (cl, Save_move SplitSaveCaller (now w)
        (recording_name (c + (m - 1)) (now w))
        (dir @ recording_name (c + (m - 1)) (now w)))]"
    unfolding w'_def by (simp_all add: piece_defs Let_def assms(2,3) u d)
  have s: "session cl w'"
    using assms(1) f(1-5) by (rule session_fields)
  have q: "produced dir c old (m - 1) w'"
    using p f(6-8) by (rule produced_fields)
  have "rotating cl dir c old m w'"
    using rotating_pending [OF s g] q assms(4) by simp
  then show ?thesis
    by (simp add: w'_def)
qed

lemma rotating_Save_move:
  assumes "session cl w" and "recordingRef w = None"
    and "tasks w = [t \<mapsto> (cl, Save_move SplitSaveCaller ts name newUri)]"
    and "pending dir c old m w (Save_move SplitSaveCaller ts name newUri)"
  shows "rotating cl dir c old m (step w (Resume t (Fulfilled Undefined)))"
proof -
  define w' where "w' = step w (Resume t (Fulfilled Undefined))"
  have p: "produced dir c old (m - 1) w" and m: "0 < m"
    and n: "name = recording_name (c + (m - 1)) ts" "newUri = dir @ name"
    using assms(4) by simp_all
  have d: "documentDirectory w = dir" "segmentCountRef w = c + (m - 1)"
    using p by (simp_all add: produced_def)
  have f: "isRecording w' = isRecording w" "isRecordingRef w' = isRecordingRef w"
    "timerRef w' = timerRef w" "intervalRef w' = intervalRef w" "timers w' = timers w"
    "documentDirectory w' = documentDirectory w"
    "segmentCountRef w' = Suc (segmentCountRef w)"
    "recordingSegments w' = recordingSegments w @ [saved_segment dir (c + (m - 1)) ts]"
    unfolding w'_def by (simp_all add: piece_defs Let_def assms(3) saved_segment_def n d)
  have g: "recordingRef w' = None" "tasks w' = [t \<mapsto> (cl, Split_delay)]"
    unfolding w'_def by (simp_all add: piece_defs Let_def assms(2,3))
  have s: "session cl w'"
    using assms(1) f(1-5) by (rule session_fields)
  have q: "produced dir c old (Suc (m - 1)) w'"
    using p f(6-8) by (rule produced_append)
  have "rotating cl dir c old m w'"
    using rotating_pending [OF s g] q m by simp
  then show ?thesis
    by (simp add: w'_def)
qed

lemma rotating_Split_delay:
  assumes "session cl w" and "recordingRef w = None"
    and "tasks w = [t \<mapsto> (cl, Split_delay)]"
    and "pending dir c old m w Split_delay"
  shows "rotating cl dir c old m (step w (Resume t (Fulfilled Undefined)))"
proof -
  define w' where "w' = step w (Resume t (Fulfilled Undefined))"
  have i: "isRecordingRef w" "c_recording cl = None"
    using assms(1) by (simp_all add: session_def)
  have f: "isRecording w' = isRecording w" "isRecordingRef w' = isRecordingRef w"
    "timerRef w' = timerRef w" "intervalRef w' = intervalRef w" "timers w' = timers w"
    "documentDirectory w' = documentDirectory w" "segmentCountRef w' = segmentCountRef w"
    "recordingSegments w' = recordingSegments w"
    unfolding w'_def by (simp_all add: piece_defs Let_def assms(2,3) i)
  have g: "recordingRef w' = None"
    "tasks w' = [t \<mapsto> (cl, StartNewSegment_audioMode SplitCaller)]"
    unfolding w'_def by (simp_all add: piece_defs Let_def assms(2,3) i)
  have s: "session cl w'"
    using assms(1) f(1-5) by (rule session_fields)
  have q: "produced dir c old m w'"
    using assms(4) produced_fields [OF _ f(6-8)] by simp
  have "rotating cl dir c old m w'"
    using rotating_pending [OF s g] q by simp
  then show ?thesis
    by (simp add: w'_def)
qed

lemma rotating_StartNewSegment_audioMode:
  assumes "session cl w" and "recordingRef w = None"
    and "tasks w = [t \<mapsto> (cl, StartNewSegment_audioMode SplitCaller)]"
    and "pending dir c old m w (StartNewSegment_audioMode SplitCaller)"
  shows "rotating cl dir c old m (step w (Resume t (Fulfilled Undefined)))"
proof -
  define w' where "w' = step w (Resume t (Fulfilled Undefined))"
  have f: "isRecording w' = isRecording w" "isRecordingRef w' = isRecordingRef w"
    "timerRef w' = timerRef w" "intervalRef w' = intervalRef w" "timers w' = timers w"
    "documentDirectory w' = documentDirectory w" "segmentCountRef w' = segmentCountRef w"
    "recordingSegments w' = recordingSegments w"
    unfolding w'_def by (simp_all add: piece_defs Let_def assms(2,3))
  have g: "recordingRef w' = None"
    "tasks w' = [t \<mapsto> (cl, StartNewSegment_create SplitCaller)]"
    unfolding w'_def by (simp_all add: piece_defs Let_def assms(2,3))
  have s: "session cl w'"
    using assms(1) f(1-5) by (rule session_fields)
  have q: "produced dir c old m w'"
    using assms(4) produced_fields [OF _ f(6-8)] by simp
  have "rotating cl dir c old m w'"
    using rotating_pending [OF s g] q by simp
  then show ?thesis
    by (simp add: w'_def)
qed

lemma rotating_StartNewSegment_create:
  assumes "session cl w" and "recordingRef w = None"
    and "tasks w = [t \<mapsto> (cl, StartNewSegment_create SplitCaller)]"
    and "pending dir c old m w (StartNewSegment_create SplitCaller)" and "u \<noteq> []"
  shows "rotating cl dir c old m (step w (Resume t (Fulfilled (NewRecording (Some u)))))"
proof -
  define w' where "w' = step w (Resume t (Fulfilled (NewRecording (Some u))))"
  have f: "isRecording w' = isRecording w" "isRecordingRef w' = isRecordingRef w"
    "timerRef w' = timerRef w" "intervalRef w' = intervalRef w" "timers w' = timers w"
    "documentDirectory w' = documentDirectory w" "segmentCountRef w' = segmentCountRef w"
    "recordingSegments w' = recordingSegments w"
    unfolding w'_def by (simp_all add: piece_defs Let_def assms(2,3))
  have g: "recordingRef w' = Some \<lparr>rec_id = next_id w, rec_uri = Some u\<rparr>"
    "tasks w' = Map.empty"
    unfolding w'_def by (simp_all add: piece_defs Let_def assms(2,3))
  have s: "session cl w'"
    using assms(1) f(1-5) by (rule session_fields)
  have q: "produced dir c old m w'"
    using assms(4) produced_fields [OF _ f(6-8)] by simp
  have "rotating cl dir c old m w'"
    using rotating_idle [OF s g] q assms(5) by (simp add: good_uri_def)
  then show ?thesis
    by (simp add: w'_def)
qed

lemma rotatingD:
  assumes "rotating cl dir c old m w"
  obtains (idle) r where "session cl w" "recordingRef w = Some r" "tasks w = Map.empty"
      "good_uri r" "produced dir c old m w"
    | (busy) t p where "session cl w" "recordingRef w = None" "tasks w = [t \<mapsto> (cl, p)]"
      "pending dir c old m w p"
  using assms unfolding rotating_def by (cases "recordingRef w") auto

lemma fulfils_create:
  assumes "fulfils (StartNewSegment_create k) r"
  obtains u where "r = Fulfilled (NewRecording (Some u))" and "u \<noteq> []"
  using assms by (cases "(StartNewSegment_create k, r)" rule: fulfils.cases) simp_all

lemma rotating_resume:
  assumes "session cl w" and "recordingRef w = None" and "tasks w = [t \<mapsto> (cl, p)]"
    and "pending dir c old m w p" and "fulfils p r"
  shows "rotating cl dir c old m (step w (Resume t r))"
proof (cases p)
  case (Save_stop k cur)
  then have "k = SplitSaveCaller" and "r = Fulfilled Undefined"
    using assms(4,5) by simp_all
  then show ?thesis
    using rotating_Save_stop [of cl w t cur dir c old m] assms Save_stop by simp
next
  case (Save_audioMode k cur)
  then have "k = SplitSaveCaller" and "r = Fulfilled Undefined"
    using assms(4,5) by simp_all
  then show ?thesis
    using rotating_Save_audioMode [of cl w t cur dir c old m] assms Save_audioMode by simp
next
  case (Save_move k ts name newUri)
  then have "k = SplitSaveCaller" and "r = Fulfilled Undefined"
    using assms(4,5) by simp_all
  then show ?thesis
    using rotating_Save_move [of cl w t ts name newUri dir c old m] assms Save_move by simp
next
  case Split_delay
  then have "r = Fulfilled Undefined"
    using assms(5) by simp
  then show ?thesis
    using rotating_Split_delay [of cl w t dir c old m] assms Split_delay by simp
next
  case (StartNewSegment_audioMode k)
  then have "k = SplitCaller" and "r = Fulfilled Undefined"
    using assms(4,5) by simp_all
  then show ?thesis
    using rotating_StartNewSegment_audioMode [of cl w t dir c old m] assms
      StartNewSegment_audioMode by simp
next
  case (StartNewSegment_create k)
  then have k: "k = SplitCaller"
    using assms(4) by simp
  obtain u where u: "r = Fulfilled (NewRecording (Some u))" "u \<noteq> []"
    using assms(5) StartNewSegment_create by (auto elim: fulfils_create)
  show ?thesis
    using rotating_StartNewSegment_create [of cl w t dir c old m u] assms
      StartNewSegment_create k u by simp
qed (use assms(4) in simp_all)

lemma rotating_step:
  assumes "rotating cl dir c old m w" and "session_event w e"
  shows "rotating cl dir c old (m + (if rotation_tick w e then 1 else 0)) (step w e)"
proof (cases e)
  case (ClockAdvance d)
  then show ?thesis
    using rotating_clock [OF assms(1), of d] by (simp add: rotation_tick_def)
next
  case (Fire i)
  have s: "session cl w"
    using assms(1) by (simp add: rotating_def)
  from s obtain i1 j where h: "timerRef w = Some i1" "timers w i1 = Some SecondTimer"
    "intervalRef w = Some j" "timers w j = Some (SplitTimer cl)" "i1 \<noteq> j"
    by (rule sessionD)
  show ?thesis
  proof (cases "i = j")
    case False
    then have "i = i1"
      using assms(2) Fire h by (simp add: session_event_def)
    then show ?thesis
      using rotating_second_tick [OF assms(1) h(2)] Fire False h(3)
      by (simp add: rotation_tick_def)
  next
    case True
    then have e: "tasks w = Map.empty"
      using assms(2) Fire h by (simp add: session_event_def)
    from assms(1) show ?thesis
    proof (cases rule: rotatingD)
      case (idle r)
      show ?thesis
        using rotating_rotation_tick [OF idle h(4)] Fire True h(3)
        by (simp add: rotation_tick_def)
    next
      case (busy t p)
      have "tasks w t = Some (cl, p)"
        using busy(3) by simp
      then show ?thesis
        using e by simp
    qed
  qed
next
  case (Resume t r)
  obtain cl' p where t: "tasks w t = Some (cl', p)" and f: "fulfils p r"
    using assms(2) Resume by (auto simp: session_event_def split: option.splits)
  from assms(1) show ?thesis
  proof (cases rule: rotatingD)
    case (idle r')
    then show ?thesis
      using t by simp
  next
    case (busy t' p')
    note e = single_task [OF busy(3) t]
    have "rotating cl dir c old m (step w (Resume t r))"
      using busy f unfolding e by (rule rotating_resume)
    then show ?thesis
      using Resume by (simp add: rotation_tick_def)
  qed
qed (use assms(2) in \<open>simp_all add: session_event_def\<close>)

lemma rotating_exec:
  assumes "rotating cl dir c old m w" and "undisturbed w es"
  shows "rotating cl dir c old (m + rotation_ticks w es) (exec es w)"
  using assms
proof (induction es arbitrary: w m)
  case Nil
  then show ?case
    by (simp add: exec_def)
next
  case (Cons e es)
  have "rotating cl dir c old (m + (if rotation_tick w e then 1 else 0)) (step w e)"
    using Cons.prems by (intro rotating_step) simp_all
  then have "rotating cl dir c old
      (m + (if rotation_tick w e then 1 else 0) + rotation_ticks (step w e) es)
      (exec es (step w e))"
    using Cons.prems by (intro Cons.IH) simp_all
  then show ?case
    by (simp add: exec_def add.assoc)
qed

lemma rotating_start_session:
  assumes "\<not> isRecording w" and "recording w = None" and "recordingRef w = None"
    and "tasks w = Map.empty" and "uri \<noteq> []"
  shows "rotating (render w) (documentDirectory w) (segmentCountRef w) (recordingSegments w) 0
           (start_session uri w)"
proof (rule rotating_idle)
  show "session (render w) (start_session uri w)"
    using assms by (simp add: start_session_eq session_def render_def)
  show "recordingRef (start_session uri w) =
      Some \<lparr>rec_id = Suc (next_id w), rec_uri = Some uri\<rparr>"
    using assms by (simp add: start_session_eq)
  show "tasks (start_session uri w) = Map.empty"
    using assms by (simp add: start_session_eq)
  show "good_uri \<lparr>rec_id = Suc (next_id w), rec_uri = Some uri\<rparr>"
    using assms by (simp add: good_uri_def)
  show "produced (documentDirectory w) (segmentCountRef w) (recordingSegments w) 0
      (start_session uri w)"
    using assms by (simp add: start_session_eq produced_def)
qed

section \<open>The claims\<close>

text \<open>
  C3.  A session is started on a component that holds no recording and has no call
  pending, and is then left to itself: time passes, the session's two timers tick, and every
  promise its rotations wait for is fulfilled, each recording reporting a non-empty URI;
  the rotation timer ticks only when no call is pending, that is, when the rotation before
  has run to its end.  When the rotation timer has ticked \<open>n\<close> times (every five seconds,
  so in \<open>5 * n\<close> seconds) and no rotation is pending, the rotations have appended exactly
  \<open>n\<close> segments to the list, built in this order for the sequence numbers
  \<open>c, c + 1, ..., c + n - 1\<close>, where \<open>c\<close> is the value of the sequence counter when the
  session starts (0 on the mounted component): the \<open>k\<close>-th is named
  \<open>recording_<c+k>_<t>.m4a\<close> and identified \<open>segment_<c+k>_<t>\<close>, with \<open>t\<close> the time of its
  save.  Their identifiers are pairwise distinct, and so are their file names; the counter
  stands at \<open>c + n\<close>, and the session is still recording.

  As stated, for every continuous recording and with the numbers from 0, the claim fails.
  A tick of the rotation timer that finds the rotation before still waiting (no recording
  is held meanwhile) is skipped by the guard of line 192: after ten seconds in which both
  ticks occurred and every promise was fulfilled (the move of the first rotation only after
  the second tick) there is one segment.  And the counter is not always 0 at the start: a
  session started after a stop that overtook a pending save finds it at 1, and its first
  segment carries the number 1.
\<close>

theorem rotation_count:
  assumes "\<not> isRecording w" and "recording w = None" and "recordingRef w = None"
    and "tasks w = Map.empty" and "uri \<noteq> []"
    and "undisturbed (start_session uri w) es"
    and "tasks (exec es (start_session uri w)) = Map.empty"
  shows "length (recordingSegments (exec es (start_session uri w))) =
           length (recordingSegments w) + rotation_ticks (start_session uri w) es
       \<and> recordingSegments (exec es (start_session uri w)) =
           recordingSegments w @
             saved_segments (documentDirectory w) (segmentCountRef w)
               (map timestamp (drop (length (recordingSegments w))
                 (recordingSegments (exec es (start_session uri w)))))
       \<and> distinct (map seg_id (drop (length (recordingSegments w))
             (recordingSegments (exec es (start_session uri w)))))
       \<and> distinct (map fileName (drop (length (recordingSegments w))
             (recordingSegments (exec es (start_session uri w)))))
       \<and> segmentCountRef (exec es (start_session uri w)) =
           segmentCountRef w + rotation_ticks (start_session uri w) es
       \<and> isRecording (exec es (start_session uri w))"
proof -
  define w' where "w' = exec es (start_session uri w)"
  define n where "n = rotation_ticks (start_session uri w) es"
  have "rotating (render w) (documentDirectory w) (segmentCountRef w) (recordingSegments w)
      (0 + n) w'"
    unfolding w'_def n_def
    using rotating_start_session [OF assms(1-5)] assms(6) by (rule rotating_exec)
  then have r: "rotating (render w) (documentDirectory w) (segmentCountRef w)
      (recordingSegments w) n w'"
    by simp
  from r have p: "produced (documentDirectory w) (segmentCountRef w) (recordingSegments w) n w'"
  proof (cases rule: rotatingD)
    case (idle r)
    then show ?thesis
      by simp
  next
    case (busy t p)
    have "tasks w' t = Some (render w, p)"
      using busy(3) by simp
    then show ?thesis
      using assms(7) by (simp add: w'_def)
  qed
  from p obtain ts where ts: "length ts = n"
    "recordingSegments w' =
       recordingSegments w @ saved_segments (documentDirectory w) (segmentCountRef w) ts"
    by (rule producedE)
  have i: "isRecording w'"
    using r by (simp add: rotating_def session_def)
  have "length (recordingSegments w') = length (recordingSegments w) + n
      \<and> recordingSegments w' = recordingSegments w @
            saved_segments (documentDirectory w) (segmentCountRef w)
              (map timestamp (drop (length (recordingSegments w)) (recordingSegments w')))
      \<and> segmentCountRef w' = segmentCountRef w + n"
    using p by (simp add: produced_def)
  moreover have "distinct (map seg_id (drop (length (recordingSegments w))
             (recordingSegments w')))"
    "distinct (map fileName (drop (length (recordingSegments w)) (recordingSegments w')))"
    by (simp_all add: ts(2) distinct_saved_segments)
  ultimately show ?thesis
    using i unfolding w'_def n_def by simp
qed

theorem rotation_count_witness:
  "undisturbed (start_session (mock_uri 0) (init_world mock_dir)) ten_seconds_events
   \<and> rotation_ticks (start_session (mock_uri 0) (init_world mock_dir)) ten_seconds_events = 2
   \<and> length (recordingSegments
        (exec ten_seconds_events (start_session (mock_uri 0) (init_world mock_dir)))) = 2
   \<and> segmentCountRef
        (exec ten_seconds_events (start_session (mock_uri 0) (init_world mock_dir))) = 2
   \<and> distinct (map seg_id (recordingSegments
        (exec ten_seconds_events (start_session (mock_uri 0) (init_world mock_dir)))))
   \<and> map fileName (recordingSegments
        (exec ten_seconds_events (start_session (mock_uri 0) (init_world mock_dir)))) =
       [''recording_0_5000.m4a'', ''recording_1_10000.m4a'']"
proof -
  define w0 where "w0 = init_world mock_dir"
  define w' where "w' = exec ten_seconds_events (start_session (mock_uri 0) w0)"
  have h: "\<not> isRecording w0" "recording w0 = None" "recordingRef w0 = None"
    "tasks w0 = Map.empty" "mock_uri 0 \<noteq> []"
    by (simp_all add: w0_def init_world_def mock_uri_def)
  have z: "recordingSegments w0 = []" "segmentCountRef w0 = 0"
    by (simp_all add: w0_def init_world_def)
  have u: "undisturbed (start_session (mock_uri 0) w0) ten_seconds_events"
    and t: "rotation_ticks (start_session (mock_uri 0) w0) ten_seconds_events = 2"
    unfolding w0_def by (rule ten_seconds_undisturbed, rule ten_seconds_ticks)
  have e: "tasks (exec ten_seconds_events (start_session (mock_uri 0) w0)) = Map.empty"
    unfolding w0_def by (simp add: ten_seconds_eq)
  note r = rotation_count [OF h u e, unfolded z t, folded w'_def]
  have "length (recordingSegments w') = 2"
    using r [THEN conjunct1] by simp
  moreover have "distinct (map seg_id (recordingSegments w'))"
    using r [THEN conjunct2, THEN conjunct2, THEN conjunct1] by simp
  moreover have "segmentCountRef w' = 2"
    using r [THEN conjunct2, THEN conjunct2, THEN conjunct2, THEN conjunct2, THEN conjunct1]
    by simp
  moreover have "map fileName (recordingSegments w') =
      [''recording_0_5000.m4a'', ''recording_1_10000.m4a'']"
    unfolding w'_def w0_def by (simp add: ten_seconds_eq)
  ultimately show ?thesis
    using u t unfolding w'_def w0_def by simp
qed

theorem skipped_tick_and_late_counter:
  "rotation_ticks (init_world mock_dir) slow_rotation_events = 2
   \<and> now slow_rotation = 10000 \<and> recordingTime slow_rotation = 10
   \<and> isRecording slow_rotation \<and> alerts slow_rotation = []
   \<and> length (recordingSegments slow_rotation) = 1
   \<and> map fileName (recordingSegments slow_rotation) = [''recording_0_5000.m4a'']
   \<and> \<not> isRecording late_save \<and> recording late_save = None \<and> recordingRef late_save = None
   \<and> segmentCountRef late_save = 1
   \<and> recordingSegments restarted = recordingSegments late_save @ [saved_segment mock_dir 1 10000]
   \<and> map fileName (recordingSegments restarted) =
       [''recording_0_5000.m4a'', ''recording_1_10000.m4a'']"
proof -
  have h: "\<not> isRecording late_save" "recording late_save = None"
    "recordingRef late_save = None" "\<forall>k. mock_uri k \<noteq> []"
    by (simp_all add: late_save_eq mock_uri_def)
  have "recordingSegments restarted = recordingSegments late_save @
      map (\<lambda>k. saved_segment (documentDirectory late_save) (segmentCountRef late_save + k)
                 (now late_save + 5000 * (k + 1))) [0..<1]"
    unfolding restarted_def using continuous_recording_steady [OF h, of 1] by blast
  then have r: "recordingSegments restarted =
      recordingSegments late_save @ [saved_segment mock_dir 1 10000]"
    by (simp add: late_save_eq mock_dir_def)
  have "map fileName (recordingSegments restarted) =
      [''recording_0_5000.m4a'', ''recording_1_10000.m4a'']"
    unfolding r
    by (simp add: late_save_eq saved_segment_def recording_name_def dec.simps)
  then show ?thesis
    using r h(1,2,3) slow_rotation_ticks
    by (simp add: slow_rotation_eq) (simp add: late_save_eq)
qed

text \<open>
  C6.  \<open>segmentProgress\<close> is a natural number below 5 in every state the component reaches
  from a state where it is (the mounted component has 0), whatever events occur and however
  they interleave.  A tick of the one-second timer replaces it by its successor modulo 5.
  A tick of the rotation timer in a session that holds a recording starts the save of that
  recording, and when the three promises of the save are fulfilled the segment is in the
  list and \<open>segmentProgress\<close> is 0; in any state, the event at which the save of a rotation
  returns, with or without a segment, leaves \<open>segmentProgress\<close> 0 and the rotation at the
  delay of line 205.  \<open>stopRecording\<close> sets it to 0 before its first \<open>await\<close>, so it is 0
  right after the stop button is pressed.
\<close>

theorem progress_cycle:
  "(segmentProgress w < 5 \<longrightarrow> segmentProgress (exec es w) < 5)
   \<and> segmentProgress (exec es (init_world dir)) < 5
   \<and> (timers w i = Some SecondTimer \<longrightarrow>
        segmentProgress (step w (Fire i)) = (segmentProgress w + 1) mod 5)
   \<and> (steady cl ws \<and> intervalRef ws = Some j \<longrightarrow>
        tasks (step ws (Fire j)) (next_id ws) =
          map_option (\<lambda>r. (cl, Save_stop SplitSaveCaller r)) (recordingRef ws)
        \<and> recordingRef ws \<noteq> None
        \<and> segmentProgress (exec [Fire j, Resume (next_id ws) (Fulfilled Undefined),
             Resume (next_id ws) (Fulfilled Undefined),
             Resume (next_id ws) (Fulfilled Undefined)] ws) = 0
        \<and> length (recordingSegments (exec [Fire j, Resume (next_id ws) (Fulfilled Undefined),
             Resume (next_id ws) (Fulfilled Undefined),
             Resume (next_id ws) (Fulfilled Undefined)] ws)) = length (recordingSegments ws) + 1)
   \<and> (tasks wp t = Some (cp, p) \<and> split_save_ends p r \<longrightarrow>
        segmentProgress (step wp (Resume t r)) = 0
        \<and> tasks (step wp (Resume t r)) t = Some (cp, Split_delay))
   \<and> segmentProgress (stopRecording cs w) = 0
   \<and> (isRecording w \<longrightarrow> segmentProgress (step w PressRecord) = 0)"
proof -
  have "segmentProgress (exec es (init_world dir)) < 5"
    by (rule progress_exec) (simp add: init_world_def)
  moreover have "segmentProgress (step w (Fire i)) = (segmentProgress w + 1) mod 5"
    if "timers w i = Some SecondTimer"
    using that
    by (simp add: step_def handle_event_def progress_commit_render progress_second_tick)
  moreover have "tasks (step ws (Fire j)) (next_id ws) =
          map_option (\<lambda>r. (cl, Save_stop SplitSaveCaller r)) (recordingRef ws)
        \<and> recordingRef ws \<noteq> None
        \<and> segmentProgress (exec [Fire j, Resume (next_id ws) (Fulfilled Undefined),
             Resume (next_id ws) (Fulfilled Undefined),
             Resume (next_id ws) (Fulfilled Undefined)] ws) = 0
        \<and> length (recordingSegments (exec [Fire j, Resume (next_id ws) (Fulfilled Undefined),
             Resume (next_id ws) (Fulfilled Undefined),
             Resume (next_id ws) (Fulfilled Undefined)] ws)) = length (recordingSegments ws) + 1"
    if s: "steady cl ws" and j: "intervalRef ws = Some j"
  proof -
    from s obtain r u i' j' where h: "isRecordingRef ws" "c_recording cl = None"
      "recordingRef ws = Some r" "rec_uri r = Some u" "u \<noteq> []"
      and j': "intervalRef ws = Some j'" "timers ws j' = Some (SplitTimer cl)"
      by (rule steadyD)
    have t: "intervalRef ws = Some j" "timers ws j = Some (SplitTimer cl)"
      using j j' by simp_all
    show ?thesis
      using rotation_tick_starts_save [OF h(1,3) t]
      by (simp add: rotation_save_eq [OF h t] h(3))
  qed
  moreover have "segmentProgress (step wp (Resume t r)) = 0
        \<and> tasks (step wp (Resume t r)) t = Some (cp, Split_delay)"
    if "tasks wp t = Some (cp, p)" and "split_save_ends p r"
    using that by (rule progress_split_save_ends)
  moreover have "segmentProgress (step w PressRecord) = 0" if "isRecording w"
    using that
    by (simp add: step_def handle_event_def handleRecordButtonPress_def render_def
        progress_commit_render progress_stopRecording)
  ultimately show ?thesis
    by (simp add: progress_exec progress_stopRecording)
qed

theorem progress_cycle_witness:
  "segmentProgress four_seconds = 4
   \<and> segmentProgress (step four_seconds (Fire 3)) = 0
   \<and> segmentProgress (exec [Fire 4, Resume 5 (Fulfilled Undefined),
        Resume 5 (Fulfilled Undefined), Resume 5 (Fulfilled Undefined)] four_seconds) = 0
   \<and> length (recordingSegments (exec [Fire 4, Resume 5 (Fulfilled Undefined),
        Resume 5 (Fulfilled Undefined), Resume 5 (Fulfilled Undefined)] four_seconds)) = 1
   \<and> segmentProgress (step (exec [Fire 4, Resume 5 (Fulfilled Undefined)] four_seconds)
        (Resume 5 Rejected)) = 0
   \<and> segmentProgress (step four_seconds PressRecord) = 0
   \<and> segmentProgress (exec [Fire 3, Fire 3] four_seconds) < 5"
proof -
  define cl where "cl = render (init_world mock_dir)"
  define wp where "wp = exec [Fire 4, Resume 5 (Fulfilled Undefined)] four_seconds"
  have s: "steady cl four_seconds"
    unfolding four_seconds_def cl_def
    by (intro second_passes_steady start_session_steady)
       (simp_all add: init_world_def mock_uri_def)
  have f: "segmentProgress four_seconds = 4" "timers four_seconds 3 = Some SecondTimer"
    "intervalRef four_seconds = Some 4" "next_id four_seconds = 5" "isRecording four_seconds"
    "recordingSegments four_seconds = []"
    by (simp_all add: four_seconds_eq)
  have p: "tasks wp 5 = Some (cl, Save_audioMode SplitSaveCaller
      \<lparr>rec_id = 2, rec_uri = Some ''mock://recording.m4a''\<rparr>)"
    unfolding wp_def cl_def four_seconds_eq by (simp add: piece_defs Let_def)
  have e: "split_save_ends (Save_audioMode SplitSaveCaller
      \<lparr>rec_id = 2, rec_uri = Some ''mock://recording.m4a''\<rparr>) Rejected"
    by simp
  show ?thesis
    using progress_cycle [of four_seconds "[Fire 3, Fire 3]" mock_dir 3 cl four_seconds 4 wp 5
        cl "Save_audioMode SplitSaveCaller
              \<lparr>rec_id = 2, rec_uri = Some ''mock://recording.m4a''\<rparr>"
        Rejected cl] s f p e
    unfolding wp_def by simp
qed

text \<open>
  C9.  The record button is pressed while \<open>isRecording\<close> is false and the permission
  request resolves to a status other than \<open>granted\<close>.  Then the only changes are the
  permission alert and the logged permission request (and the bookkeeping of the finished
  call): \<open>isRecording\<close> and every other state variable and ref are as before, no recording
  was asked of the device, no timer was created, and nothing of the call is left pending.
\<close>

theorem permission_denied:
  assumes "\<not> isRecording w" and "status \<noteq> Granted"
  shows "exec [PressRecord, Resume (next_id w) (Fulfilled (PermissionResponse status))] w =
         w\<lparr>alerts := alerts w @ [PermissionDenied],
           calls := calls w @ [RequestPermissions],
           tasks := (tasks w)(next_id w := None),
           next_id := Suc (next_id w)\<rparr>"
  using assms by (simp add: piece_defs)

theorem permission_denied_witness:
  "exec [PressRecord, Resume 1 (Fulfilled (PermissionResponse Denied))] (init_world mock_dir) =
   (init_world mock_dir)\<lparr>alerts := [PermissionDenied], calls := [RequestPermissions],
      next_id := 2\<rparr>"
  using permission_denied [of "init_world mock_dir" Denied]
  by (simp add: init_world_def)

text \<open>
  C4.  Five seconds into a session the rotation has saved its segment and is opening the
  next recording (past the check of line 208) when the stop button is pressed.  The stop is
  completed, with the completion alert for 1 file: nothing is being recorded any more,
  \<open>isRecording\<close> and \<open>isRecordingRef\<close> are false, no recording is held or open.  Then
  \<open>Audio.Recording.createAsync\<close> of the rotation rejects, and the \<open>catch\<close> of
  \<open>startNewSegment\<close> (lines 132-136) calls \<open>stopRecording()\<close> all the same.  No segment is
  added, but the audio mode is set once more and a second completion alert is shown, for
  0 files (the list of the closure in which the timer was created).  \<open>stopRecording\<close> has
  no guard of its own; the button (lines 214-220) calls it only while \<open>isRecording\<close> holds
  and the rotation checks \<open>isRecordingRef\<close> before it opens a recording (line 208), but the
  \<open>catch\<close> of line 135 checks nothing.  The claim asks for no further completion alert.
\<close>

theorem stale_stop_notifies_again:
  "\<not> isRecording stopped_while_reopening \<and> \<not> isRecordingRef stopped_while_reopening
   \<and> recording stopped_while_reopening = None \<and> recordingRef stopped_while_reopening = None
   \<and> open_handles stopped_while_reopening = {}
   \<and> alerts stopped_while_reopening = [StopSummary 1]
   \<and> tasks stopped_while_reopening 5 =
        Some (render (init_world mock_dir), StartNewSegment_create SplitCaller)
   \<and> alerts reopen_fails_after_stop = [StopSummary 1, SegmentStartFailure, StopSummary 0]
   \<and> recordingSegments reopen_fails_after_stop = recordingSegments stopped_while_reopening
   \<and> calls reopen_fails_after_stop = calls stopped_while_reopening @ [SetAudioMode False]"
  unfolding reopen_fails_after_stop_def stopped_while_reopening_def reopening_eq
  by (simp add: piece_defs without_def Let_def init_world_def)

text \<open>
  C5.  The completion alert reports the length of the whole segment list after the stop,
  not the number of segments of this session: when the stop button is pressed while a
  recording is open, the alert shows the number of segments that were in the list at the
  press (whichever session saved them; the list is never emptied) plus one for the final
  segment when every step of its save is fulfilled, and plus nothing when stopping the
  recording fails.

  As stated the claim fails in a second session: after a first session that saved two
  segments, a session that is started and stopped at once saves one segment and reports 3.
\<close>

theorem stop_summary_counts_whole_list:
  assumes "isRecording w" and "recording w = Some r" and "recordingRef w = Some r"
    and "rec_uri r = Some u" and "u \<noteq> []"
  shows "alerts (stop_session w) = alerts w @ [StopSummary (length (recordingSegments w) + 1)]
       \<and> recordingSegments (stop_session w) =
           recordingSegments w @ [saved_segment (documentDirectory w) (segmentCountRef w) (now w)]
       \<and> alerts (exec [PressRecord, Resume (next_id w) Rejected,
                        Resume (next_id w) (Fulfilled Undefined)] w) =
           alerts w @ [StopSummary (length (recordingSegments w))]
       \<and> recordingSegments (exec [PressRecord, Resume (next_id w) Rejected,
                        Resume (next_id w) (Fulfilled Undefined)] w) = recordingSegments w"
proof -
  have "stop_session w =
    w\<lparr>isRecording := False, isRecordingRef := False,
       timers := without (timerRef w) (without (intervalRef w) (timers w)),
       intervalRef := None, timerRef := None, recordingTime := 0, segmentProgress := 0,
       recordingRef := None, next_id := Suc (next_id w),
       open_handles := open_handles w - {rec_id r},
       recordingSegments := recordingSegments w
          @ [saved_segment (documentDirectory w) (segmentCountRef w) (now w)],
       recording := None,
       calls := calls w @
          [StopAndUnload (rec_id r), SetAudioMode False,
           MoveFile u (documentDirectory w @ recording_name (segmentCountRef w) (now w)),
           SetAudioMode False],
       tasks := (tasks w)(next_id w := None),
       alerts := alerts w @ [StopSummary (Suc (length (recordingSegments w)))],
       segmentCountRef := 0\<rparr>"
    using assms by (simp add: stop_session_def saved_segment_def piece_defs Let_def)
  moreover have "exec [PressRecord, Resume (next_id w) Rejected,
                        Resume (next_id w) (Fulfilled Undefined)] w =
    w\<lparr>isRecording := False, isRecordingRef := False,
       timers := without (timerRef w) (without (intervalRef w) (timers w)),
       intervalRef := None, timerRef := None, recordingTime := 0, segmentProgress := 0,
       recordingRef := None, next_id := Suc (next_id w),
       open_handles := open_handles w - {rec_id r},
       recordingSegments := recordingSegments w,
       recording := None,
       calls := calls w @ [StopAndUnload (rec_id r), SetAudioMode False],
       tasks := (tasks w)(next_id w := None),
       alerts := alerts w @ [StopSummary (length (recordingSegments w))],
       segmentCountRef := 0\<rparr>"
    using assms by (simp add: piece_defs Let_def)
  ultimately show ?thesis
    by simp
qed

theorem stop_summary_counts_whole_list_witness:
  "alerts two_segments = [StopSummary 2] \<and> length (recordingSegments two_segments) = 2"
proof -
  define w1 where "w1 = continuous_recording mock_uri 1 (init_world mock_dir)"
  have h: "isRecording w1"
    "recording w1 = Some \<lparr>rec_id = 6, rec_uri = Some ''mock://recording.m4a''\<rparr>"
    "recordingRef w1 = Some \<lparr>rec_id = 6, rec_uri = Some ''mock://recording.m4a''\<rparr>"
    "rec_uri \<lparr>rec_id = 6, rec_uri = Some ''mock://recording.m4a''\<rparr>
       = Some ''mock://recording.m4a''"
    "''mock://recording.m4a'' \<noteq> []"
    unfolding w1_def recorded_five_seconds_eq by simp_all
  have "alerts w1 = []" "length (recordingSegments w1) = 1"
    unfolding w1_def recorded_five_seconds_eq by simp_all
  then show ?thesis
    using stop_summary_counts_whole_list [OF h]
    unfolding two_segments_def w1_def by simp
qed

theorem stop_summary_is_cumulative:
  "length (recordingSegments two_segments) = 2
   \<and> length (recordingSegments second_session) = 3
   \<and> alerts second_session = [StopSummary 2, StopSummary 3]"
  unfolding second_session_def two_segments_eq
  by (simp add: run_defs piece_defs Let_def)

text \<open>
  C10.  In any state the mounted component can reach, let a split have saved its segment
  and be opening the next recording, and let the audio-mode call or \<open>createAsync\<close> of that
  \<open>startNewSegment\<close> reject.  Then the failure alert is shown and \<open>stopRecording\<close> runs
  (its audio-mode call fulfilled): \<open>isRecording\<close> and its ref become false, the timers held
  by the two timer refs are cleared and the refs set to null, elapsed time, progress and
  the sequence counter become 0, the completion alert is shown, and nothing is retried: no
  device call but the audio-mode reset is made and no call is left pending.  Nothing else
  changes.  (The count in the alert is the length of the list as the closure of the
  session's start saw it.)
\<close>

theorem reopen_failure_stops_session:
  assumes "w = exec es (init_world dir)" and "tasks w t = Some (cl, p)"
    and "p = StartNewSegment_audioMode SplitCaller \<or> p = StartNewSegment_create SplitCaller"
  shows "exec [Resume t Rejected, Resume (next_id w) (Fulfilled Undefined)] w =
         w\<lparr>isRecording := False, isRecordingRef := False,
           timers := without (timerRef w) (without (intervalRef w) (timers w)),
           intervalRef := None, timerRef := None, recordingTime := 0, segmentProgress := 0,
           calls := calls w @ [SetAudioMode False],
           next_id := Suc (next_id w),
           tasks := (tasks w)(t := None, next_id w := None),
           alerts := alerts w
             @ [SegmentStartFailure, StopSummary (length (c_recordingSegments cl))],
           segmentCountRef := 0\<rparr>
       \<and> (\<forall>i. timerRef w = Some i \<or> intervalRef w = Some i \<longrightarrow>
             without (timerRef w) (without (intervalRef w) (timers w)) i = None)"
proof -
  have "guard_inv w"
    unfolding assms(1) by (intro guard_exec guard_init)
  then have "passed_guard cl p"
    using assms(2) by (auto simp: guard_inv_def)
  then have none: "c_recording cl = None"
    using assms(3) by (auto simp: passed_guard_def)
  have clocks: "without (timerRef w) (without (intervalRef w) (timers w)) i = None"
    if "timerRef w = Some i \<or> intervalRef w = Some i" for i
    using that by (auto simp: without_def split: option.splits)
  have run: "exec [Resume t Rejected, Resume (next_id w) (Fulfilled Undefined)] w =
         w\<lparr>isRecording := False, isRecordingRef := False,
           timers := without (timerRef w) (without (intervalRef w) (timers w)),
           intervalRef := None, timerRef := None, recordingTime := 0, segmentProgress := 0,
           calls := calls w @ [SetAudioMode False],
           next_id := Suc (next_id w),
           tasks := (tasks w)(t := None, next_id w := None),
           alerts := alerts w
             @ [SegmentStartFailure, StopSummary (length (c_recordingSegments cl))],
           segmentCountRef := 0\<rparr>"
  proof (cases "p = StartNewSegment_create SplitCaller")
    case True
    then show ?thesis
      using assms(2) none by (simp add: piece_defs Let_def)
  next
    case False
    then have "p = StartNewSegment_audioMode SplitCaller"
      using assms(3) by simp
    then show ?thesis
      using assms(2) none by (simp add: piece_defs Let_def)
  qed
  show ?thesis
    using run clocks by blast
qed

theorem reopen_failure_stops_session_witness:
  "isRecording reopening \<and> timers reopening 3 = Some SecondTimer
   \<and> (\<exists>cl. timers reopening 4 = Some (SplitTimer cl))
   \<and> length (recordingSegments reopening) = 1
   \<and> \<not> isRecording (exec [Resume 5 Rejected, Resume 6 (Fulfilled Undefined)] reopening)
   \<and> timers (exec [Resume 5 Rejected, Resume 6 (Fulfilled Undefined)] reopening) 3 = None
   \<and> timers (exec [Resume 5 Rejected, Resume 6 (Fulfilled Undefined)] reopening) 4 = None
   \<and> segmentCountRef (exec [Resume 5 Rejected, Resume 6 (Fulfilled Undefined)] reopening) = 0
   \<and> alerts (exec [Resume 5 Rejected, Resume 6 (Fulfilled Undefined)] reopening) =
       [SegmentStartFailure, StopSummary 0]"
proof -
  have h: "reopening = exec reopening_events (init_world mock_dir)"
    "tasks reopening 5 =
      Some (render (init_world mock_dir), StartNewSegment_create SplitCaller)"
    "StartNewSegment_create SplitCaller = StartNewSegment_audioMode SplitCaller
       \<or> StartNewSegment_create SplitCaller = StartNewSegment_create SplitCaller"
    by (simp_all add: reopening_events_eq reopening_eq)
  have n: "next_id reopening = 6"
    by (simp add: reopening_eq)
  note run = reopen_failure_stops_session [OF h, unfolded n]
  show ?thesis
    unfolding conjunct1 [OF run]
    by (simp add: reopening_eq without_def render_def init_world_def)
qed

text \<open>
  C8.  A sound is loaded and a segment of the list is pressed.  If its identifier is the one
  in \<open>playingSegmentId\<close>, the loaded sound is unloaded and both \<open>soundObject\<close> and
  \<open>playingSegmentId\<close> are cleared; nothing is loaded.  Otherwise the loaded sound is
  unloaded first (the call to unload it is the first device call, the call to load the
  pressed segment's file the second, made once the unload is fulfilled), the new sound
  replaces it among the loaded sounds and in \<open>soundObject\<close>, and \<open>playingSegmentId\<close> is the
  pressed segment's identifier.
\<close>

theorem playback_toggle:
  assumes "soundObject w = Some s" and "i < length (recordingSegments w)"
    and "recordingSegments w ! i = seg"
  shows "(playingSegmentId w = Some (seg_id seg) \<longrightarrow>
            playingSegmentId (press_unload i w) = None
          \<and> soundObject (press_unload i w) = None
          \<and> loaded_sounds (press_unload i w) = loaded_sounds w - {s}
          \<and> prefix (calls w @ [UnloadSound s]) (calls (press_unload i w))
          \<and> (\<forall>u. CreateSound u \<notin> set (drop (length (calls w)) (calls (press_unload i w)))))
       \<and> (playingSegmentId w \<noteq> Some (seg_id seg) \<longrightarrow>
            calls (exec [PressSegment i] w) = calls w @ [UnloadSound s]
          \<and> playingSegmentId (press_replace i w) = Some (seg_id seg)
          \<and> soundObject (press_replace i w) = Some (Suc (next_id w))
          \<and> loaded_sounds (press_replace i w) =
                insert (Suc (next_id w)) (loaded_sounds w - {s})
          \<and> prefix (calls w @ [UnloadSound s, CreateSound (seg_uri seg)])
                (calls (press_replace i w)))"
proof -
  have same: "press_unload i w =
    w\<lparr>next_id := Suc (next_id w), tasks := (tasks w)(next_id w := None),
       soundObject := None, playingSegmentId := None,
       timers := without (timerRef w) (without (intervalRef w) (timers w)),
       calls := calls w @ UnloadSound s # UnloadSound s #
          (case recordingRef w of None \<Rightarrow> [] | Some r \<Rightarrow> [StopAndUnload (rec_id r)]),
       loaded_sounds := loaded_sounds w - {s},
       open_handles := open_handles w
          - (case recordingRef w of None \<Rightarrow> {} | Some r \<Rightarrow> {rec_id r})\<rparr>"
    if "playingSegmentId w = Some (seg_id seg)"
    using assms that by (simp add: press_unload_def piece_defs Let_def)
  have first: "calls (exec [PressSegment i] w) = calls w @ [UnloadSound s]"
    using assms by (simp add: piece_defs Let_def)
  have other: "press_replace i w =
    w\<lparr>tasks := (tasks w)(next_id w := None),
       next_id := Suc (Suc (next_id w)),
       soundObject := Some (Suc (next_id w)),
       playingSegmentId := Some (seg_id seg),
       status_callbacks := insert (Suc (next_id w)) (status_callbacks w),
       timers := without (timerRef w) (without (intervalRef w)
          (without (timerRef w) (without (intervalRef w) (timers w)))),
       calls := calls w @ UnloadSound s # CreateSound (seg_uri seg) # UnloadSound s #
          (case recordingRef w of None \<Rightarrow> [] | Some r \<Rightarrow> [StopAndUnload (rec_id r)]) @
          (case recordingRef w of None \<Rightarrow> [] | Some r \<Rightarrow> [StopAndUnload (rec_id r)]),
       loaded_sounds := insert (Suc (next_id w)) (loaded_sounds w - {s}),
       open_handles := open_handles w
          - (case recordingRef w of None \<Rightarrow> {} | Some r \<Rightarrow> {rec_id r})\<rparr>"
    if "playingSegmentId w \<noteq> Some (seg_id seg)"
    using assms that by (simp add: press_replace_def piece_defs Let_def)
  show ?thesis
    using first by (auto simp: same other prefix_def split: option.splits)
qed

theorem playback_toggle_witness:
  "playingSegmentId first_segment_playing = Some ''segment_0_5000''
   \<and> soundObject first_segment_playing = Some 9
   \<and> playingSegmentId (press_unload 0 first_segment_playing) = None
   \<and> soundObject (press_unload 0 first_segment_playing) = None
   \<and> loaded_sounds (press_unload 0 first_segment_playing) = {}
   \<and> playingSegmentId (press_replace 1 first_segment_playing) = Some ''segment_1_5000''
   \<and> soundObject (press_replace 1 first_segment_playing) = Some 11
   \<and> loaded_sounds (press_replace 1 first_segment_playing) = {11}"
proof -
  have h: "soundObject first_segment_playing = Some 9"
    "0 < length (recordingSegments first_segment_playing)"
    "1 < length (recordingSegments first_segment_playing)"
    by (simp_all add: first_segment_playing_eq two_segments_eq)
  show ?thesis
    using playback_toggle [OF h(1,2) refl] playback_toggle [OF h(1,3) refl]
    by (simp add: first_segment_playing_eq two_segments_eq)
qed

text \<open>
  C7.  A sound is playing for the first segment of the list and the second segment is pressed;
  the playing sound is unloaded, and loading the pressed segment's file fails.  The
  playback alert is shown and no sound is loaded any more, but \<open>playingSegmentId\<close> still
  holds the first segment's identifier: the \<open>catch\<close> of \<open>playSegment\<close> (lines 247-250)
  clears nothing, and \<open>playingSegmentId\<close> is cleared before the load only when the pressed
  segment is the playing one (lines 227-230).  The claim asks for it to be cleared.
\<close>

theorem failed_replace_keeps_playing_id:
  "playingSegmentId first_segment_playing = Some ''segment_0_5000''
   \<and> soundObject first_segment_playing = Some 9
   \<and> map seg_id (recordingSegments first_segment_playing) = [''segment_0_5000'', ''segment_1_5000'']
   \<and> alerts (press_replace_fails 1 first_segment_playing) =
         alerts first_segment_playing @ [PlaybackFailure]
   \<and> soundObject (press_replace_fails 1 first_segment_playing) = None
   \<and> loaded_sounds (press_replace_fails 1 first_segment_playing) = {}
   \<and> playingSegmentId (press_replace_fails 1 first_segment_playing) = Some ''segment_0_5000''"
  unfolding press_replace_fails_def first_segment_playing_eq two_segments_eq
  by (simp add: piece_defs without_def Let_def)

text \<open>
  C2.  The component is mounted, the record button is pressed, permission is granted, and
  opening the first recording fails.  \<open>isRecording\<close> ends false and no segment is saved,
  but the rejection is caught inside \<open>startNewSegment\<close> (lines 132-136), which shows its own
  alert and calls \<open>stopRecording()\<close>, so a completion alert for 0 files follows;
  \<open>startNewSegment\<close> then returns normally, \<open>startRecording\<close> goes on after line 49 and
  creates both timers, which stay active (the one-second timer goes on counting), and the
  \<open>catch\<close> of \<open>startRecording\<close> (lines 63-68), with the alert that the test
  \<open>handles recording errors gracefully\<close> expects, is never entered.  The claim asks for
  one failure alert, that of \<open>startRecording\<close>, and no timer.
\<close>

theorem first_open_failure_leaves_clocks_running:
  "\<not> isRecording first_open_fails
   \<and> recordingSegments first_open_fails = []
   \<and> alerts first_open_fails = [SegmentStartFailure, StopSummary 0]
   \<and> DeviceStartFailure \<notin> set (alerts first_open_fails)
   \<and> timerRef first_open_fails = Some 3
   \<and> timers first_open_fails 3 = Some SecondTimer
   \<and> intervalRef first_open_fails = Some 4
   \<and> timers first_open_fails 4 = Some (SplitTimer (render (init_world mock_dir)))
   \<and> recordingTime first_open_fails = 0
   \<and> recordingTime (exec [Fire 3] first_open_fails) = 1"
  by (simp add: first_open_fails_def run_defs piece_defs Let_def)

text \<open>
  C1.  The record button is pressed twice before the permission request of the first press
  has settled; both calls of \<open>startRecording\<close> reach \<open>startNewSegment\<close> and pass its guard
  (line 113) while no recording exists, and each opens a recording.  Afterwards a session
  is active and two recordings are open on the device, one of them no longer referenced.
  The guard of \<open>startNewSegment\<close> is read before its two \<open>await\<close>s and the reference is
  written after them, so it does not exclude a second open in between.  The claim asks for
  at most one open recording at every instant.  In the histories in which no call starts
  while another is pending, at most one recording is open after every event
  (\<open>sequential_one_handle\<close>).
\<close>

theorem concurrent_starts_open_two_recordings:
  "isRecording two_starts
   \<and> 3 \<in> open_handles two_starts \<and> 6 \<in> open_handles two_starts
   \<and> card (open_handles two_starts) = 2
   \<and> recordingRef two_starts = Some \<lparr>rec_id = 6, rec_uri = Some (mock_uri 1)\<rparr>"
  by (simp add: two_starts_def run_defs piece_defs Let_def)

end
